theory Spec2Isabelle
  imports Complex_Main "HOL-Library.Word"
begin


section \<open>Data model\<close>

subsection \<open>Floating-point numbers\<close>

text \<open>
  The three source files exchange NumPy arrays that their docstrings fix as
  two-dimensional arrays (height, width) of floats. A float is NaN, an infinity, or a
  number, which is modelled by the real it denotes (the sign of zero is not kept; no
  operation of the code observes it). Every comparison with NaN is false, as IEEE 754
  has it.
\<close>

datatype fval = NaN | MInf | Fin real | PInf

fun fless :: "fval \<Rightarrow> fval \<Rightarrow> bool" where
  "fless (Fin a) (Fin b) = (a < b)"
| "fless MInf (Fin b) = True"
| "fless MInf PInf = True"
| "fless (Fin a) PInf = True"
| "fless _ _ = False"

fun in_unit :: "fval \<Rightarrow> bool" where
  "in_unit (Fin x) = (0 \<le> x \<and> x \<le> 1)"
| "in_unit _ = False"

text \<open>
  The arrays of the pipeline hold single-precision numbers (the synthesizer and the
  resizing helper build them with \<open>dtype=np.float32\<close>) or double-precision numbers
  (NumPy's default); a Python \<open>float\<close> is a double.
\<close>

datatype dtype = Float32 | Float64

text \<open>
  Rounding to the nearest integer, ties to the even one.
\<close>

definition round_half_even :: "real \<Rightarrow> int" where
  "round_half_even q =
     (let n = \<lfloor>q\<rfloor>; d = q - of_int n
      in if d < 1/2 then n else if 1/2 < d then n + 1 else if even n then n else n + 1)"

text \<open>
  The binary exponent under which a magnitude a is represented: the least e, from the
  smallest exponent of the format on, with a < 2^(e+1); after n steps the search stops
  above the largest exponent.
\<close>

fun exp_search :: "nat \<Rightarrow> int \<Rightarrow> real \<Rightarrow> int" where
  "exp_search 0 e a = e"
| "exp_search (Suc n) e a = (if a < 2 powi (e + 1) then e else exp_search n (e + 1) a)"

text \<open>
  Rounding of a real to the binary floating-point format with p significant bits and
  exponents from emin to emax, in the default mode of IEEE 754 (to nearest, ties to
  even): the number is rounded to a multiple of the unit in the last place of its binade
  (of the lowest binade for subnormal numbers), and a result of magnitude 2^(emax+1) or
  more is an infinity.
\<close>

definition round_float :: "nat \<Rightarrow> int \<Rightarrow> int \<Rightarrow> real \<Rightarrow> fval" where
  "round_float p emin emax x =
     (let e = exp_search (nat (emax + 1 - emin)) emin \<bar>x\<bar>;
          u = 2 powi (e - int p + 1);
          y = of_int (round_half_even (x / u)) * u
      in if 2 powi (emax + 1) \<le> \<bar>y\<bar> then (if 0 < x then PInf else MInf) else Fin y)"

definition round32 :: "real \<Rightarrow> fval" where
  "round32 = round_float 24 (-126) 127"

definition round64 :: "real \<Rightarrow> fval" where
  "round64 = round_float 53 (-1022) 1023"

fun round_dtype :: "dtype \<Rightarrow> real \<Rightarrow> fval" where
  "round_dtype Float32 = round32"
| "round_dtype Float64 = round64"

text \<open>
  In an operation between an array and a Python \<open>float\<close> NumPy converts the scalar to
  the element type of the array: a double stays as it is for a double-precision array
  and is rounded to single precision for a single-precision array.
\<close>

fun cast_scalar :: "dtype \<Rightarrow> fval \<Rightarrow> fval" where
  "cast_scalar Float64 t = t"
| "cast_scalar Float32 (Fin x) = round32 x"
| "cast_scalar Float32 t = t"

subsection \<open>Arrays\<close>

text \<open>
  A two-dimensional array: its element type, its shape (height, width) and its elements
  in row-major order. An array that NumPy can build holds exactly height * width
  elements.
\<close>

record ndarray =
  dtype :: dtype
  shape :: "nat \<times> nat"
  data :: "fval list"

definition wf_array :: "ndarray \<Rightarrow> bool" where
  "wf_array a = (length (data a) = fst (shape a) * snd (shape a))"

definition pixel_at :: "ndarray \<Rightarrow> nat \<Rightarrow> nat \<Rightarrow> fval" where
  "pixel_at a i j = data a ! (i * snd (shape a) + j)"

definition values_in_unit :: "ndarray \<Rightarrow> bool" where
  "values_in_unit a = list_all in_unit (data a)"

subsection \<open>Exceptions and the text of a shape\<close>

datatype error = ValueError string | OverflowError string

fun str_nat :: "nat \<Rightarrow> string" where
  "str_nat n =
     (if n < 10 then [''0123456789'' ! n]
      else str_nat (n div 10) @ [''0123456789'' ! (n mod 10)])"

declare str_nat.simps [simp del]

definition str_shape :: "nat \<times> nat \<Rightarrow> string" where
  "str_shape s = ''('' @ str_nat (fst s) @ '', '' @ str_nat (snd s) @ '')''"

section \<open>Mask Applicator (step5_create_masked.py)\<close>

text \<open>
  \<open>mask_img < threshold\<close>: the boolean array of the elementwise comparison of the mask
  with the threshold, a Python \<open>float\<close>, converted to the element type of the mask.
\<close>

definition less_scalar :: "ndarray \<Rightarrow> fval \<Rightarrow> bool list" where
  "less_scalar m t = map (\<lambda>v. fless v (cast_scalar (dtype m) t)) (data m)"

text \<open>
  \<open>a[mask] = v\<close> on the element buffer: the elements where the mask is true become v.
  The value stored is 1.0, which every element type represents exactly.
\<close>

definition setitem_mask :: "fval list \<Rightarrow> bool list \<Rightarrow> fval \<Rightarrow> fval list" where
  "setitem_mask xs bs v = map2 (\<lambda>x b. if b then v else x) xs bs"

definition shape_message :: "nat \<times> nat \<Rightarrow> nat \<times> nat \<Rightarrow> string" where
  "shape_message s m =
     ''Images must have the same shape. '' @
     ''stipple_img: '' @ str_shape s @ '', mask_img: '' @ str_shape m"

definition create_masked_stipple :: "ndarray \<Rightarrow> ndarray \<Rightarrow> fval \<Rightarrow> error + ndarray" where
  "create_masked_stipple stipple_img mask_img threshold =
     (if shape stipple_img \<noteq> shape mask_img
      then Inl (ValueError (shape_message (shape stipple_img) (shape mask_img)))
      else
        let masked_stipple = stipple_img;
            mask_areas = less_scalar mask_img threshold
        in Inr (masked_stipple\<lparr>data := setitem_mask (data masked_stipple) mask_areas (Fin 1)\<rparr>))"

subsection \<open>The same code over an explicit store\<close>

text \<open>
  In Python the arguments are references and \<open>masked_stipple[mask_areas] = 1.0\<close> writes
  into an array in place. To speak about which arrays the call touches, the store is a
  list of arrays addressed by position; \<open>copy()\<close> allocates the next free address.
  The two arguments may be one and the same address.
\<close>

type_synonym heap = "ndarray list"

definition np_copy :: "heap \<Rightarrow> nat \<Rightarrow> nat \<times> heap" where
  "np_copy h a = (length h, h @ [h ! a])"

definition np_setitem_mask :: "heap \<Rightarrow> nat \<Rightarrow> bool list \<Rightarrow> fval \<Rightarrow> heap" where
  "np_setitem_mask h a bs v = h[a := (h ! a)\<lparr>data := setitem_mask (data (h ! a)) bs v\<rparr>]"

definition create_masked_stipple_st :: "heap \<Rightarrow> nat \<Rightarrow> nat \<Rightarrow> fval \<Rightarrow> (error + nat) \<times> heap" where
  "create_masked_stipple_st h stipple_img mask_img threshold =
     (if shape (h ! stipple_img) \<noteq> shape (h ! mask_img)
      then (Inl (ValueError (shape_message (shape (h ! stipple_img)) (shape (h ! mask_img)))), h)
      else
        let (masked_stipple, h1) = np_copy h stipple_img;
            mask_areas = less_scalar (h1 ! mask_img) threshold;
            h2 = np_setitem_mask h1 masked_stipple mask_areas (Fin 1)
        in (Inr masked_stipple, h2))"

section \<open>The image library\<close>

text \<open>
  The synthesizer and the compositor work through Pillow. Its images of mode L are
  grids of bytes with a size (width, height); the part of the library the two source
  files call is modelled here from the library's documented behaviour, and what depends
  on the platform (which font files exist, how a font draws a glyph, how the resampling
  filter interpolates) is a parameter.
\<close>

record image_L =
  size_L :: "nat \<times> nat"
  pixels :: "8 word list"

text \<open>
  \<open>Image.new('L', (width, height), color)\<close>: a canvas filled with one colour. The
  library rejects a negative width or height with ValueError and accepts zero.
\<close>

definition Image_new :: "int \<times> int \<Rightarrow> 8 word \<Rightarrow> error + image_L" where
  "Image_new sz color =
     (if fst sz < 0 \<or> snd sz < 0 then Inl (ValueError ''Width and height must be >= 0'')
      else Inr \<lparr>size_L = (nat (fst sz), nat (snd sz)),
                pixels = replicate (nat (fst sz) * nat (snd sz)) color\<rparr>)"

text \<open>
  \<open>np.array(img, dtype=np.float32) / 255.0\<close>: a single-precision array of shape
  (height, width) whose elements are the bytes divided by 255 in single precision (a
  byte and 255 are single-precision numbers, and the quotient is rounded).
\<close>

definition to_float_array :: "image_L \<Rightarrow> ndarray" where
  "to_float_array img =
     \<lparr>dtype = Float32,
      shape = (snd (size_L img), fst (size_L img)),
      data = map (\<lambda>p. round32 (real (unat p) / 255)) (pixels img)\<rparr>"

text \<open>
  A font object is either a scalable font loaded from a file at a pixel size or the
  library's built-in default font, which has a size of its own.
\<close>

datatype font = FreeTypeFont string int | DefaultFont

text \<open>
  The platform: which paths exist (\<open>os.path.exists\<close>), whether
  \<open>ImageFont.truetype(path, size)\<close> returns a font rather than raising, the bounding
  box \<open>draw.textbbox((0, 0), text, font=font)\<close> as (left, top, right, bottom), and the
  coverage (0 = none, 255 = full) with which the font inks the pixel at an offset
  (dx, dy) from the drawing position.
\<close>

record platform =
  path_exists :: "string \<Rightarrow> bool"
  truetype_loads :: "string \<Rightarrow> int \<Rightarrow> bool"
  textbbox :: "font \<Rightarrow> string \<Rightarrow> int \<times> int \<times> int \<times> int"
  coverage :: "font \<Rightarrow> string \<Rightarrow> int \<Rightarrow> int \<Rightarrow> 8 word"

text \<open>
  The bounding box bounds the ink: outside it a font covers nothing. This is what the
  library's bounding box means, and it is a hypothesis wherever it is used.
\<close>

definition ink_within_bbox :: "platform \<Rightarrow> bool" where
  "ink_within_bbox env =
     (\<forall>f s dx dy. case textbbox env f s of
        (l, t, r, b) \<Rightarrow> \<not> (l \<le> dx \<and> dx < r \<and> t \<le> dy \<and> dy < b) \<longrightarrow> coverage env f s dx dy = 0)"

text \<open>
  The library composites ink over a byte of the canvas by coverage, dividing by 255
  with rounding.
\<close>

definition div255 :: "nat \<Rightarrow> nat" where
  "div255 a = (let tmp = a + 128 in (tmp div 256 + tmp) div 256)"

definition blend8 :: "8 word \<Rightarrow> 8 word \<Rightarrow> 8 word \<Rightarrow> 8 word" where
  "blend8 cov in1 in2 = of_nat (div255 (unat in1 * (255 - unat cov) + unat in2 * unat cov))"

text \<open>
  \<open>draw.text((x, y), text, fill=fill, font=font)\<close>: every pixel (column, row) of the
  canvas is blended with the fill colour by the font's coverage at its offset from (x, y).
\<close>

definition draw_text :: "platform \<Rightarrow> image_L \<Rightarrow> int \<times> int \<Rightarrow> string \<Rightarrow> 8 word \<Rightarrow> font \<Rightarrow> image_L" where
  "draw_text env img xy text fill fnt =
     (let w = fst (size_L img)
      in img\<lparr>pixels :=
           map (\<lambda>(k, old).
                  blend8 (coverage env fnt text (int (k mod w) - fst xy) (int (k div w) - snd xy))
                    old fill)
               (enumerate 0 (pixels img))\<rparr>)"

section \<open>Mask Synthesizer (step4_create_block_letter.py)\<close>

text \<open>Python's \<open>int()\<close> of a float truncates toward zero.\<close>

definition py_int :: "real \<Rightarrow> int" where
  "py_int x = (if 0 \<le> x then \<lfloor>x\<rfloor> else \<lceil>x\<rceil>)"

definition font_paths :: "string list" where
  "font_paths =
     [''C:/Windows/Fonts/arialbd.ttf'',
      ''C:/Windows/Fonts/arial.ttf'',
      ''C:/Windows/Fonts/calibrib.ttf'',
      ''C:/Windows/Fonts/timesbd.ttf'',
      ''/System/Library/Fonts/Supplemental/Arial Bold.ttf'',
      ''/Library/Fonts/Arial Bold.ttf'',
      ''/System/Library/Fonts/Helvetica.ttc'',
      ''/usr/share/fonts/truetype/dejavu/DejaVuSans-Bold.ttf'',
      ''/usr/share/fonts/truetype/liberation/LiberationSans-Bold.ttf'',
      ''/usr/share/fonts/truetype/noto/NotoSans-Bold.ttf'']"

text \<open>
  The loop over the font paths: the first path that exists and loads wins; a path that
  does not exist, or whose load raises, is passed over.
\<close>

fun try_font_paths :: "platform \<Rightarrow> int \<Rightarrow> string list \<Rightarrow> font option" where
  "try_font_paths env font_size [] = None"
| "try_font_paths env font_size (font_path # rest) =
     (if path_exists env font_path \<and> truetype_loads env font_path font_size
      then Some (FreeTypeFont font_path font_size)
      else try_font_paths env font_size rest)"

text \<open>
  When the loop found nothing: \<open>arial.ttf\<close> by name, and when that raises, the default
  font.
\<close>

definition select_font :: "platform \<Rightarrow> int \<Rightarrow> font" where
  "select_font env font_size =
     (case try_font_paths env font_size font_paths of
        Some f \<Rightarrow> f
      | None \<Rightarrow>
          if truetype_loads env ''arial.ttf'' font_size
          then FreeTypeFont ''arial.ttf'' font_size
          else DefaultFont)"

text \<open>
  \<open>int(min(height, width) * font_size_ratio)\<close>: the smaller side, an integer, is
  converted to a double, the product with the ratio, a double, is rounded to a double,
  and \<open>int()\<close> truncates it. Python raises OverflowError for an integer beyond the range
  of a double and for the truncation of an infinite product.
\<close>

definition font_size_of :: "int \<Rightarrow> int \<Rightarrow> real \<Rightarrow> error + int" where
  "font_size_of height width font_size_ratio =
     (case round64 (real_of_int (min height width)) of
        Fin m \<Rightarrow>
          (case round64 (m * font_size_ratio) of
             Fin y \<Rightarrow> Inr (py_int y)
           | _ \<Rightarrow> Inl (OverflowError ''cannot convert float infinity to integer''))
      | _ \<Rightarrow> Inl (OverflowError ''int too large to convert to float''))"

text \<open>
  The drawing position (x, y) that centres the bounding box on the canvas.
\<close>

definition text_position :: "int \<Rightarrow> int \<Rightarrow> int \<times> int \<times> int \<times> int \<Rightarrow> int \<times> int" where
  "text_position height width bbox =
     (case bbox of
        (b0, b1, b2, b3) \<Rightarrow>
          let text_width = b2 - b0;
              text_height = b3 - b1;
              x = (width - text_width) div 2 - b0;
              y = (height - text_height) div 2 - b1
          in (x, y))"

definition create_block_letter_s :: "platform \<Rightarrow> int \<Rightarrow> int \<Rightarrow> string \<Rightarrow> real \<Rightarrow> error + ndarray" where
  "create_block_letter_s env height width letter font_size_ratio =
     (case Image_new (width, height) 255 of
        Inl e \<Rightarrow> Inl e
      | Inr img \<Rightarrow>
          (case font_size_of height width font_size_ratio of
             Inl e \<Rightarrow> Inl e
           | Inr font_size \<Rightarrow>
               let fnt = select_font env font_size;
                   bbox = textbbox env fnt letter;
                   xy = text_position height width bbox;
                   drawn = draw_text env img xy letter 0 fnt
               in Inr (to_float_array drawn)))"

text \<open>
  The rectangle of the canvas (left, top, right, bottom) that the bounding box of a text
  in a font occupies once the text is drawn at the position the code computes.
\<close>

definition glyph_box :: "platform \<Rightarrow> font \<Rightarrow> int \<Rightarrow> int \<Rightarrow> string \<Rightarrow> int \<times> int \<times> int \<times> int" where
  "glyph_box env fnt height width letter =
     (let bbox = textbbox env fnt letter;
          xy = text_position height width bbox
      in case bbox of
           (b0, b1, b2, b3) \<Rightarrow> (fst xy + b0, snd xy + b1, fst xy + b2, snd xy + b3))"

text \<open>
  The coverage with which the text, drawn in a font at that position, inks the pixel in
  row i and column j of the canvas.
\<close>

definition ink_at :: "platform \<Rightarrow> font \<Rightarrow> int \<Rightarrow> int \<Rightarrow> string \<Rightarrow> nat \<Rightarrow> nat \<Rightarrow> 8 word" where
  "ink_at env fnt height width letter i j =
     (let xy = text_position height width (textbbox env fnt letter)
      in coverage env fnt letter (int j - fst xy) (int i - snd xy))"

text \<open>
  A platform to run the code on: of the listed fonts only DejaVu Sans Bold is installed;
  a scalable font of size n draws every text as a solid n by n block one pixel below the
  drawing position, and the default font as a solid 6 by 11 block.
\<close>

definition block_font_bbox :: "font \<Rightarrow> string \<Rightarrow> int \<times> int \<times> int \<times> int" where
  "block_font_bbox f s = (case f of FreeTypeFont p n \<Rightarrow> (0, 1, n, n + 1) | DefaultFont \<Rightarrow> (0, 0, 6, 11))"

definition block_platform :: platform where
  "block_platform =
     \<lparr>path_exists = (\<lambda>p. p = ''/usr/share/fonts/truetype/dejavu/DejaVuSans-Bold.ttf''),
      truetype_loads = (\<lambda>p n. 0 < n),
      textbbox = block_font_bbox,
      coverage = (\<lambda>f s dx dy.
         case block_font_bbox f s of
           (l, t, r, b) \<Rightarrow> if l \<le> dx \<and> dx < r \<and> t \<le> dy \<and> dy < b then 255 else 0)\<rparr>"

section \<open>Panel Compositor (create_meme.py)\<close>

text \<open>
  \<open>(img * 255).astype(np.uint8)\<close>: the product is computed in the element type of the
  array (255 is exact in it, the product is rounded), and the conversion of a float to a
  byte truncates toward zero. For a product outside the range of a byte, for an infinity
  and for NaN the conversion is unspecified; the model wraps modulo 256 and sends what is
  not a number to 0, and no property below depends on that choice.
\<close>

definition to_uint8 :: "dtype \<Rightarrow> fval \<Rightarrow> 8 word" where
  "to_uint8 d v =
     (case v of
        Fin x \<Rightarrow> (case round_dtype d (x * 255) of Fin y \<Rightarrow> word_of_int (py_int y) | _ \<Rightarrow> 0)
      | _ \<Rightarrow> 0)"

text \<open>
  \<open>Image.fromarray\<close> of a two-dimensional byte array of shape (height, width): an image
  of mode L and size (width, height) over the same bytes.
\<close>

definition Image_fromarray :: "nat \<times> nat \<Rightarrow> 8 word list \<Rightarrow> image_L" where
  "Image_fromarray shp bytes = \<lparr>size_L = (snd shp, fst shp), pixels = bytes\<rparr>"

text \<open>
  \<open>img.resize((w, h), Image.Resampling.LANCZOS)\<close> is the library's: a parameter that
  maps an image and a target size (width, height) to an image or to the error the
  library raises. What the library promises, and what the properties below assume, is
  that resizing a non-empty image to a positive size returns an image of that size.
\<close>

type_synonym resampler = "image_L \<Rightarrow> nat \<times> nat \<Rightarrow> error + image_L"

definition resize_contract :: "resampler \<Rightarrow> bool" where
  "resize_contract rs =
     (\<forall>im w h.
        0 < w \<and> 0 < h \<and> 0 < fst (size_L im) \<and> 0 < snd (size_L im) \<longrightarrow>
        (\<exists>out. rs im (w, h) = Inr out \<and> size_L out = (w, h) \<and> length (pixels out) = w * h))"

text \<open>
  The helper \<open>ensure_size\<close>. Its two \<open>print\<close> calls write a warning to the console and
  are not part of the result.
\<close>

definition ensure_size :: "resampler \<Rightarrow> ndarray \<Rightarrow> nat \<Rightarrow> nat \<Rightarrow> error + ndarray" where
  "ensure_size rs img target_h target_w =
     (if shape img \<noteq> (target_h, target_w)
      then
        let img_pil = Image_fromarray (shape img) (map (to_uint8 (dtype img)) (data img))
        in case rs img_pil (target_w, target_h) of
             Inl e \<Rightarrow> Inl e
           | Inr img_resized \<Rightarrow> Inr (to_float_array img_resized)
      else Inr img)"

text \<open>
  What \<open>create_statistics_meme\<close> hands to the plotting library and what it prints: the
  figure size in inches, the background, the four titled panels from left to right, the
  horizontal positions of the separator lines as fractions of the figure, the path and
  the resolution given to \<open>savefig\<close>, and the sizes in pixels that the summary reports
  for one panel and for the whole picture.
\<close>

record meme =
  figsize :: "nat \<times> nat"
  facecolor :: string
  panels :: "(string \<times> ndarray) list"
  separators :: "rat list"
  savefig_path :: string
  savefig_dpi :: nat
  printed_panel_size :: "nat \<times> nat"
  printed_total_size :: "nat \<times> nat"

definition labels :: "string list" where
  "labels = [''Reality'', ''Your Model'', ''Selection Bias'', ''Estimate'']"

definition create_statistics_meme ::
  "resampler \<Rightarrow> ndarray \<Rightarrow> ndarray \<Rightarrow> ndarray \<Rightarrow> ndarray \<Rightarrow> string \<Rightarrow> nat \<Rightarrow> string \<Rightarrow> error + meme" where
  "create_statistics_meme rs original_img stipple_img block_letter_img masked_stipple_img
       output_path dpi background_color =
     (case shape original_img of
        (h, w) \<Rightarrow>
          (case ensure_size rs stipple_img h w of
             Inl e \<Rightarrow> Inl e
           | Inr stipple_img' \<Rightarrow>
          (case ensure_size rs block_letter_img h w of
             Inl e \<Rightarrow> Inl e
           | Inr block_letter_img' \<Rightarrow>
          (case ensure_size rs masked_stipple_img h w of
             Inl e \<Rightarrow> Inl e
           | Inr masked_stipple_img' \<Rightarrow>
               Inr \<lparr>figsize = (20, 7),
                    facecolor = background_color,
                    panels = zip labels
                      [original_img, stipple_img', block_letter_img', masked_stipple_img'],
                    separators = [1/4, 1/2, 3/4],
                    savefig_path = output_path,
                    savefig_dpi = dpi,
                    printed_panel_size = (w, h),
                    printed_total_size = (w * 4, h)\<rparr>))))"

text \<open>
  The plotting library rasterises a figure of a by b inches at d dots per inch on a
  canvas of a * d by b * d pixels; the panels are stretched over it (\<open>aspect='auto'\<close>)
  whatever their own size in pixels. The tight bounding box then crops the canvas to
  what is drawn, and the four panels span the whole width of the figure.
\<close>

definition canvas_pixels :: "meme \<Rightarrow> nat \<times> nat" where
  "canvas_pixels m = (fst (figsize m) * savefig_dpi m, snd (figsize m) * savefig_dpi m)"

text \<open>
  A resampler to run the code with: nearest-neighbour sampling, which fails on an empty
  source or target as the library does.
\<close>

definition nearest_resize :: resampler where
  "nearest_resize im target =
     (case (size_L im, target) of
        ((w0, h0), (w, h)) \<Rightarrow>
          if w = 0 \<or> h = 0 \<or> w0 = 0 \<or> h0 = 0
          then Inl (ValueError ''height and width must be > 0'')
          else Inr \<lparr>size_L = (w, h),
                    pixels = map (\<lambda>k. pixels im ! (((k div w) * h0 div h) * w0 + (k mod w) * w0 div w))
                               [0..<w * h]\<rparr>)"

section \<open>Properties of the rounding\<close>


lemma round_half_even_of_int: "round_half_even (of_int n) = n"
  by (simp add: round_half_even_def)

lemma round_half_even_ge: "of_int n \<le> q \<Longrightarrow> n \<le> round_half_even q"
proof -
  assume "of_int n \<le> q"
  then have "n \<le> \<lfloor>q\<rfloor>" by (simp add: le_floor_iff)
  then show ?thesis by (simp add: round_half_even_def Let_def)
qed

lemma round_half_even_le: "q \<le> of_int n \<Longrightarrow> round_half_even q \<le> n"
proof -
  assume a: "q \<le> of_int n"
  then have f: "\<lfloor>q\<rfloor> \<le> n" by (simp add: floor_le_iff)
  show ?thesis
  proof (cases "\<lfloor>q\<rfloor> = n")
    case True
    then have "q = of_int n" using a of_int_floor_le [of q] by simp
    then show ?thesis by (simp add: round_half_even_of_int)
  next
    case False
    then have "\<lfloor>q\<rfloor> + 1 \<le> n" using f by simp
    then show ?thesis by (simp add: round_half_even_def Let_def)
  qed
qed

lemma round_half_even_error: "\<bar>of_int (round_half_even q) - q\<bar> \<le> 1/2"
proof -
  have "of_int \<lfloor>q\<rfloor> \<le> q" "q < of_int \<lfloor>q\<rfloor> + 1" by linarith+
  then show ?thesis
    by (auto simp: round_half_even_def Let_def abs_le_iff)
qed

lemma exp_search_upper: "e \<le> e' \<Longrightarrow> a < 2 powi (e' + 1) \<Longrightarrow> exp_search n e a \<le> e'"
proof (induction n arbitrary: e)
  case 0
  then show ?case by simp
next
  case (Suc n)
  show ?case
  proof (cases "a < 2 powi (e + 1)")
    case True
    then show ?thesis using Suc.prems by simp
  next
    case False
    then have "(2::real) powi (e + 1) < 2 powi (e' + 1)" using Suc.prems(2) by linarith
    then have "e + 1 < e' + 1"
      by (metis linorder_not_less one_le_numeral power_int_increasing)
    then have "e + 1 \<le> e'" by simp
    then show ?thesis using False Suc.IH [of "e + 1"] Suc.prems(2) by simp
  qed
qed

lemma exp_search_eq:
  "e0 \<le> e \<Longrightarrow> e \<le> e0 + int n \<Longrightarrow> e = e0 \<or> 2 powi e \<le> a \<Longrightarrow>
   a < 2 powi (e + 1) \<or> e = e0 + int n \<Longrightarrow> exp_search n e0 a = e"
proof (induction n arbitrary: e0)
  case 0
  then show ?case by simp
next
  case (Suc n)
  show ?case
  proof (cases "a < 2 powi (e0 + 1)")
    case True
    have "e = e0"
    proof (rule ccontr)
      assume ne: "e \<noteq> e0"
      then have "2 powi e \<le> a" "e0 + 1 \<le> e" using Suc.prems by auto
      moreover have "(2::real) powi (e0 + 1) \<le> 2 powi e"
        using \<open>e0 + 1 \<le> e\<close> by (intro power_int_increasing) auto
      ultimately show False using True by linarith
    qed
    then show ?thesis using True by simp
  next
    case False
    have ne: "e \<noteq> e0" using False Suc.prems(4) by auto
    then have "exp_search n (e0 + 1) a = e"
      using Suc.prems by (intro Suc.IH) auto
    then show ?thesis using False by simp
  qed
qed

lemma round_float_eval:
  assumes "emin \<le> e" "e \<le> emax" "e = emin \<or> 2 powi e \<le> \<bar>x\<bar>" "\<bar>x\<bar> < 2 powi (e + 1)"
  shows "round_float p emin emax x =
     (let u = 2 powi (e - int p + 1);
          y = of_int (round_half_even (x / u)) * u
      in if 2 powi (emax + 1) \<le> \<bar>y\<bar> then (if 0 < x then PInf else MInf) else Fin y)"
proof -
  have "exp_search (nat (emax + 1 - emin)) emin \<bar>x\<bar> = e"
    using assms by (intro exp_search_eq) auto
  then show ?thesis by (simp add: round_float_def)
qed

lemma two_powi_split:
  "k - c = d \<Longrightarrow> 0 \<le> d \<Longrightarrow> (2::real) powi k = of_int (2 ^ nat d) * 2 powi c"
proof -
  assume a: "k - c = d" "0 \<le> d"
  have "k = d + c" using a by simp
  then have "(2::real) powi k = 2 powi (d + c)" by (simp only:)
  also have "\<dots> = 2 powi d * 2 powi c" by (simp add: power_int_add)
  also have "(2::real) powi d = 2 ^ nat d" using a(2) by (simp add: power_int_def)
  finally show ?thesis by simp
qed

lemma round_float_bounded:
  assumes "0 < p" "emin - int p + 1 \<le> k" "k \<le> emax" "\<bar>x\<bar> \<le> 2 powi k"
  shows "\<exists>y. round_float p emin emax x = Fin y \<and> \<bar>y\<bar> \<le> 2 powi k \<and>
           (0 \<le> x \<longrightarrow> 0 \<le> y) \<and> (x \<le> 0 \<longrightarrow> y \<le> 0)"
proof -
  define e where "e = exp_search (nat (emax + 1 - emin)) emin \<bar>x\<bar>"
  define u :: real where "u = 2 powi (e - int p + 1)"
  define r where "r = round_half_even (x / u)"
  define d where "d = k - (e - int p + 1)"
  have u0: "0 < u" by (simp add: u_def)
  have "\<bar>x\<bar> < 2 powi (max k emin + 1)"
  proof -
    have "(2::real) powi k < 2 powi (max k emin + 1)"
      by (intro power_int_strict_increasing) auto
    then show ?thesis using assms(4) by linarith
  qed
  then have "e \<le> max k emin"
    unfolding e_def by (intro exp_search_upper) auto
  then have d0: "0 \<le> d"
    using assms(1,2) by (auto simp: d_def max_def split: if_splits)
  define N :: int where "N = 2 ^ nat d"
  have pk: "(2::real) powi k = of_int N * u"
    unfolding N_def u_def by (rule two_powi_split [OF _ d0]) (simp add: d_def)
  have "\<bar>x\<bar> \<le> of_int N * u" using assms(4) pk by simp
  then have "x \<le> of_int N * u" "- (of_int N * u) \<le> x" by linarith+
  then have q: "x / u \<le> of_int N" "of_int (- N) \<le> x / u"
    using u0 by (simp_all add: pos_divide_le_eq pos_le_divide_eq)
  have rb: "r \<le> N" "- N \<le> r"
    unfolding r_def using q by (auto intro: round_half_even_le round_half_even_ge)
  have "\<bar>real_of_int r\<bar> \<le> of_int N" using rb by linarith
  then have "\<bar>real_of_int r\<bar> * u \<le> of_int N * u" using u0 by (simp add: mult_right_mono)
  then have yb: "\<bar>of_int r * u\<bar> \<le> 2 powi k" using u0 pk by (simp add: abs_mult)
  have "(2::real) powi k < 2 powi (emax + 1)"
    using assms(3) by (intro power_int_strict_increasing) auto
  then have fin: "round_float p emin emax x = Fin (of_int r * u)"
    using yb by (simp add: round_float_def Let_def e_def [symmetric] u_def [symmetric] r_def [symmetric])
  have s1: "0 \<le> of_int r * u" if "0 \<le> x"
  proof -
    have "of_int 0 \<le> x / u" using that u0 by simp
    then have "0 \<le> r" unfolding r_def by (rule round_half_even_ge)
    then show ?thesis using u0 by simp
  qed
  have s2: "of_int r * u \<le> 0" if "x \<le> 0"
  proof -
    have "x / u \<le> of_int 0" using that u0 by (simp add: divide_le_0_iff)
    then have "r \<le> 0" unfolding r_def by (rule round_half_even_le)
    then show ?thesis using u0 by (simp add: mult_le_0_iff)
  qed
  show ?thesis using fin yb s1 s2 by blast
qed

lemma round_float_int_fence:
  assumes "0 < p" "emin \<le> int p - 1" "int p \<le> emax" "\<bar>x\<bar> < 2 ^ p"
  shows "\<exists>y. round_float p emin emax x = Fin y \<and>
           (\<forall>n. of_int n \<le> x \<longrightarrow> of_int n \<le> y) \<and> (\<forall>n. x \<le> of_int n \<longrightarrow> y \<le> of_int n)"
proof -
  define e where "e = exp_search (nat (emax + 1 - emin)) emin \<bar>x\<bar>"
  define u :: real where "u = 2 powi (e - int p + 1)"
  define r where "r = round_half_even (x / u)"
  define c where "c = int p - 1 - e"
  have u0: "0 < u" by (simp add: u_def)
  have xp: "\<bar>x\<bar> \<le> 2 powi (int p)" using assms(4) by (simp add: power_int_def)
  have "emin - int p + 1 \<le> int p" using assms(1,2) by simp
  from round_float_bounded [OF assms(1) this assms(3) xp]
  obtain y where y: "round_float p emin emax x = Fin y"
    by blast
  have "\<bar>x\<bar> < 2 powi ((int p - 1) + 1)" using assms(4) by (simp add: power_int_def)
  then have "e \<le> int p - 1"
    unfolding e_def using assms(2) by (intro exp_search_upper) auto
  then have c0: "0 \<le> c" by (simp add: c_def)
  define K :: int where "K = 2 ^ nat c"
  have "(2::real) powi 0 = of_int K * u"
    unfolding K_def u_def by (rule two_powi_split [OF _ c0]) (simp add: c_def)
  then have ku: "of_int K * u = 1" by simp
  have k0: "0 < K" by (simp add: K_def)
  have xu: "x / u = x * of_int K" using ku u0 by (simp add: field_simps)
  have yr: "y = of_int r * u"
    using y by (simp add: round_float_def Let_def e_def [symmetric] u_def [symmetric]
        r_def [symmetric] split: if_splits)
  have yk: "y * of_int K = of_int r"
    using ku by (simp add: yr mult.assoc mult.commute [of u])
  have lo: "of_int n \<le> y" if "of_int n \<le> x" for n
  proof -
    have "of_int (n * K) \<le> x / u" using that k0 by (simp add: xu mult_right_mono)
    then have "n * K \<le> r" unfolding r_def by (rule round_half_even_ge)
    then have "real_of_int (n * K) \<le> of_int r" by linarith
    then have "of_int n * of_int K \<le> y * real_of_int K" by (simp add: yk)
    then show ?thesis using k0 by (simp add: mult_le_cancel_right)
  qed
  have hi: "y \<le> of_int n" if "x \<le> of_int n" for n
  proof -
    have "x / u \<le> of_int (n * K)" using that k0 by (simp add: xu mult_right_mono)
    then have "r \<le> n * K" unfolding r_def by (rule round_half_even_le)
    then have "real_of_int r \<le> of_int (n * K)" by linarith
    then have "y * real_of_int K \<le> of_int n * of_int K" by (simp add: yk)
    then show ?thesis using k0 by (simp add: mult_le_cancel_right)
  qed
  show ?thesis using y lo hi by blast
qed

lemma round_float_of_int:
  assumes "0 < p" "emin \<le> int p - 1" "int p \<le> emax" "\<bar>n\<bar> < 2 ^ p"
  shows "round_float p emin emax (of_int n) = Fin (of_int n)"
proof -
  have "\<bar>real_of_int n\<bar> < 2 ^ p"
    using assms(4) by (metis of_int_abs of_int_less_numeral_power_cancel_iff)
  from round_float_int_fence [OF assms(1-3) this]
  obtain y where y: "round_float p emin emax (of_int n) = Fin y"
    and "of_int n \<le> y" "y \<le> of_int n"
    by blast
  then show ?thesis by simp
qed

lemma round_float_error:
  assumes "round_float p emin emax x = Fin y" "emin \<le> e'" "\<bar>x\<bar> < 2 powi (e' + 1)"
  shows "\<bar>y - x\<bar> \<le> 2 powi (e' - int p + 1) / 2"
proof -
  define e where "e = exp_search (nat (emax + 1 - emin)) emin \<bar>x\<bar>"
  define u :: real where "u = 2 powi (e - int p + 1)"
  define r where "r = round_half_even (x / u)"
  have u0: "0 < u" by (simp add: u_def)
  have "e \<le> e'" unfolding e_def using assms(2,3) by (intro exp_search_upper)
  then have uu: "u \<le> 2 powi (e' - int p + 1)"
    unfolding u_def by (intro power_int_increasing) auto
  have yr: "y = of_int r * u"
    using assms(1) by (simp add: round_float_def Let_def e_def [symmetric] u_def [symmetric]
        r_def [symmetric] split: if_splits)
  have "\<bar>of_int r - x / u\<bar> \<le> 1/2" unfolding r_def by (rule round_half_even_error)
  then have "\<bar>of_int r - x / u\<bar> * u \<le> 1/2 * u" using u0 by (intro mult_right_mono) auto
  moreover have "y - x = (of_int r - x / u) * u"
    using u0 by (simp add: yr field_simps)
  then have "\<bar>of_int r - x / u\<bar> * u = \<bar>y - x\<bar>"
    using u0 by (simp add: abs_mult)
  ultimately show ?thesis using uu by linarith
qed

text \<open>A number of magnitude 2^(emax+1) or more rounds to an infinity.\<close>

lemma round_float_overflow:
  assumes "0 < p" "emin \<le> emax + 1" "2 powi (emax + 1) \<le> \<bar>x\<bar>"
  shows "round_float p emin emax x = (if 0 < x then PInf else MInf)"
proof -
  define u :: real where "u = 2 powi (emax + 1 - int p + 1)"
  define r where "r = round_half_even (x / u)"
  define N :: int where "N = 2 ^ nat (int p - 1)"
  have u0: "0 < u" by (simp add: u_def)
  have e: "exp_search (nat (emax + 1 - emin)) emin \<bar>x\<bar> = emax + 1"
    using assms(2,3) by (intro exp_search_eq) auto
  have pk: "(2::real) powi (emax + 1) = of_int N * u"
    unfolding N_def u_def using assms(1) by (intro two_powi_split) simp_all
  have "of_int N * u \<le> \<bar>of_int r * u\<bar>"
  proof (cases "0 \<le> x")
    case True
    then have "of_int N * u \<le> x" using assms(3) pk by simp
    then have "of_int N \<le> x / u" using u0 by (simp add: pos_le_divide_eq)
    then have "N \<le> r" unfolding r_def by (rule round_half_even_ge)
    then have "real_of_int N * u \<le> of_int r * u" using u0 by simp
    then show ?thesis by linarith
  next
    case False
    then have "x \<le> - (of_int N * u)" using assms(3) pk by simp
    then have "x / u \<le> of_int (- N)" using u0 by (simp add: pos_divide_le_eq)
    then have "r \<le> - N" unfolding r_def by (rule round_half_even_le)
    then have "real_of_int r \<le> - real_of_int N" by linarith
    then have "real_of_int r * u \<le> (- real_of_int N) * u"
      using u0 by (intro mult_right_mono) simp_all
    moreover have "- (real_of_int r * u) \<le> \<bar>real_of_int r * u\<bar>" by (rule abs_ge_minus_self)
    ultimately show ?thesis by simp
  qed
  then have "2 powi (emax + 1) \<le> \<bar>of_int r * u\<bar>" using pk by simp
  then show ?thesis
    unfolding round_float_def Let_def e u_def [symmetric] r_def [symmetric] by simp
qed

subsection \<open>Single and double precision\<close>

lemma round32_unit:
  assumes "0 \<le> x" "x \<le> 1"
  shows "\<exists>y. round32 x = Fin y \<and> 0 \<le> y \<and> y \<le> 1"
  using round_float_bounded [of 24 "-126" 0 127 x] assms by (auto simp: round32_def)

lemma in_unit_round32: "0 \<le> x \<Longrightarrow> x \<le> 1 \<Longrightarrow> in_unit (round32 x)"
  using round32_unit [of x] by auto

lemma round32_of_int: "\<bar>n\<bar> < 2 ^ 24 \<Longrightarrow> round32 (of_int n) = Fin (of_int n)"
  unfolding round32_def by (rule round_float_of_int) simp_all

lemma round64_of_int: "\<bar>n\<bar> < 2 ^ 53 \<Longrightarrow> round64 (of_int n) = Fin (of_int n)"
  unfolding round64_def by (rule round_float_of_int) simp_all

lemma round32_0: "round32 0 = Fin 0"
  using round32_of_int [of 0] by simp

lemma round32_1: "round32 1 = Fin 1"
  using round32_of_int [of 1] by simp

lemma round64_0: "round64 0 = Fin 0"
  using round64_of_int [of 0] by simp

lemma round32_half: "round32 (1/2) = Fin (1/2)"
  unfolding round32_def
  by (subst round_float_eval [where e = "-1"]) (simp_all add: round_half_even_def Let_def)

lemma round32_error_unit:
  assumes "0 \<le> x" "x \<le> 1" "round32 x = Fin y"
  shows "\<bar>y - x\<bar> \<le> 1 / 2 ^ 24"
proof -
  have "\<bar>x\<bar> < 2 powi (0 + 1)" using assms(1,2) by simp
  from round_float_error [OF assms(3) [unfolded round32_def] _ this]
  show ?thesis by simp
qed

lemma round_dtype_int_fence:
  assumes "\<bar>x\<bar> < 2 ^ 24"
  shows "\<exists>y. round_dtype d x = Fin y \<and>
           (\<forall>n. of_int n \<le> x \<longrightarrow> of_int n \<le> y) \<and> (\<forall>n. x \<le> of_int n \<longrightarrow> y \<le> of_int n)"
proof (cases d)
  case Float32
  show ?thesis
    unfolding Float32 round_dtype.simps round32_def
    using assms by (intro round_float_int_fence) simp_all
next
  case Float64
  have "\<bar>x\<bar> < 2 ^ 53" using assms by simp
  then show ?thesis
    unfolding Float64 round_dtype.simps round64_def
    by (intro round_float_int_fence) simp_all
qed

text \<open>
  Truncating a rounded non-negative number gives the floor of the exact number or, when
  the rounding reaches the next integer, its ceiling.
\<close>

lemma py_int_fenced:
  assumes "0 \<le> x"
    and "\<forall>n. of_int n \<le> x \<longrightarrow> of_int n \<le> y" "\<forall>n. x \<le> of_int n \<longrightarrow> y \<le> of_int n"
  shows "\<lfloor>x\<rfloor> \<le> py_int y \<and> py_int y \<le> \<lceil>x\<rceil>"
proof -
  have y0: "0 \<le> y" using assms(1) assms(2) [rule_format, of 0] by simp
  have lo: "of_int \<lfloor>x\<rfloor> \<le> y" using assms(2) [rule_format, of "\<lfloor>x\<rfloor>"] by simp
  have hi: "y \<le> of_int \<lceil>x\<rceil>" using assms(3) [rule_format, of "\<lceil>x\<rceil>"] by simp
  have "\<lfloor>x\<rfloor> \<le> \<lfloor>y\<rfloor>" using lo by (simp add: le_floor_iff)
  moreover have "\<lfloor>y\<rfloor> \<le> \<lceil>x\<rceil>" using hi by (simp add: floor_le_iff)
  ultimately show ?thesis using y0 by (simp add: py_int_def)
qed

text \<open>The double nearest to 0.7 and the single-precision number nearest to it.\<close>

lemma round32_double_0_7:
  "round32 (3152519739159347/4503599627370496) = Fin (11744051/16777216)"
  unfolding round32_def
  by (subst round_float_eval [where e = "-1"]) (simp_all add: round_half_even_def Let_def)

lemma round64_10_times_0_7: "round64 (10 * (3152519739159347/4503599627370496)) = Fin 7"
  unfolding round64_def
  by (subst round_float_eval [where e = 2]) (simp_all add: round_half_even_def Let_def)
section \<open>Properties of the Mask Applicator\<close>

subsection \<open>Auxiliary facts\<close>

lemma flat_index_bound: "i < h \<Longrightarrow> j < w \<Longrightarrow> i * w + j < h * (w::nat)"
proof -
  assume a: "i < h" "j < w"
  have "i * w + j < i * w + w" using a by simp
  also have "\<dots> = Suc i * w" by simp
  also have "\<dots> \<le> h * w" using a by (intro mult_le_mono1) simp
  finally show ?thesis .
qed

lemma length_setitem_mask: "length (setitem_mask xs bs v) = min (length xs) (length bs)"
  by (simp add: setitem_mask_def)

lemma nth_setitem_mask:
  "k < length xs \<Longrightarrow> k < length bs \<Longrightarrow> setitem_mask xs bs v ! k = (if bs ! k then v else xs ! k)"
  by (simp add: setitem_mask_def)

lemma length_less_scalar: "length (less_scalar m t) = length (data m)"
  by (simp add: less_scalar_def)

lemma nth_less_scalar:
  "k < length (data m) \<Longrightarrow> less_scalar m t ! k = fless (data m ! k) (cast_scalar (dtype m) t)"
  by (simp add: less_scalar_def)

lemma fless_irrefl: "\<not> fless t t"
  by (cases t) simp_all

lemma setitem_mask_twice: "setitem_mask (setitem_mask xs bs v) bs v = setitem_mask xs bs v"
proof (induction xs arbitrary: bs)
  case Nil
  then show ?case by (simp add: setitem_mask_def)
next
  case (Cons x xs)
  then show ?case by (cases bs) (simp_all add: setitem_mask_def)
qed

lemma setitem_mask_swap:
  "setitem_mask (setitem_mask xs bs v) cs v = setitem_mask (setitem_mask xs cs v) bs v"
proof (induction xs arbitrary: bs cs)
  case Nil
  then show ?case by (simp add: setitem_mask_def)
next
  case (Cons x xs)
  show ?case
  proof (cases bs)
    case Nil
    then show ?thesis by (simp add: setitem_mask_def)
  next
    case bs: (Cons b bs')
    show ?thesis
    proof (cases cs)
      case Nil
      then show ?thesis by (simp add: setitem_mask_def)
    next
      case cs: (Cons c cs')
      have "setitem_mask (setitem_mask xs bs' v) cs' v = setitem_mask (setitem_mask xs cs' v) bs' v"
        by (rule Cons.IH)
      then show ?thesis
        using bs cs by (simp add: setitem_mask_def)
    qed
  qed
qed

lemma setitem_mask_in_unit:
  "list_all in_unit xs \<Longrightarrow> list_all in_unit (setitem_mask xs bs (Fin 1))"
proof (induction xs arbitrary: bs)
  case Nil
  then show ?case by (simp add: setitem_mask_def)
next
  case (Cons x xs)
  then show ?case by (cases bs) (simp_all add: setitem_mask_def)
qed

text \<open>
  The store version computes the value of the pure version and puts it at the next
  free address; a shape mismatch leaves the store as it was.
\<close>

lemma create_masked_stipple_st_value:
  assumes "s < length h" "m < length h"
  shows "create_masked_stipple_st h s m t =
     (case create_masked_stipple (h ! s) (h ! m) t of
        Inl e \<Rightarrow> (Inl e, h)
      | Inr R \<Rightarrow> (Inr (length h), h @ [R]))"
  using assms
  by (simp add: create_masked_stipple_st_def create_masked_stipple_def np_copy_def
        np_setitem_mask_def nth_append Let_def)

subsection \<open>Pixelwise contract\<close>

text \<open>
  The comparison is made in the element type of the mask. For a single-precision mask
  holding the single-precision number nearest to 0.7 and the threshold 0.7 (a double,
  which is greater), the converted threshold equals the mask value: the pixel is kept,
  although the mask value is below the threshold.
\<close>

theorem masked_float32_threshold_counterexample:
  "create_masked_stipple \<lparr>dtype = Float64, shape = (1, 1), data = [Fin 0]\<rparr>
     \<lparr>dtype = Float32, shape = (1, 1), data = [Fin (11744051/16777216)]\<rparr>
     (Fin (3152519739159347/4503599627370496)) =
     Inr \<lparr>dtype = Float64, shape = (1, 1), data = [Fin 0]\<rparr> \<and>
   fless (Fin (11744051/16777216)) (Fin (3152519739159347/4503599627370496))"
  by (simp add: create_masked_stipple_def less_scalar_def setitem_mask_def round32_double_0_7)

text \<open>
  C1, as the code has it. For a sampled image S and a mask M of the same shape and any
  threshold t (NaN and the infinities included), the Mask Applicator returns an image R
  of that shape and of the element type of S with R[i,j] = 1.0 where M[i,j] < t' and
  R[i,j] = S[i,j] elsewhere, t' being the threshold converted to the element type of the
  mask; where M[i,j] equals t' the pixel of S is kept. Whenever that conversion is exact
  (for every double-precision mask, and for a single-precision mask when t is a
  single-precision number), t' is t: then R[i,j] = 1.0 where M[i,j] < t, and where
  M[i,j] equals t the pixel of S is kept. The restriction of the values to [0,1] is not
  needed.
\<close>

theorem masked_pixelwise:
  assumes "wf_array S" "wf_array M" "shape S = shape M"
  shows "\<exists>R. create_masked_stipple S M t = Inr R \<and> shape R = shape S \<and> dtype R = dtype S \<and>
     wf_array R \<and>
     (\<forall>i < fst (shape S). \<forall>j < snd (shape S).
        pixel_at R i j =
          (if fless (pixel_at M i j) (cast_scalar (dtype M) t) then Fin 1 else pixel_at S i j) \<and>
        (pixel_at M i j = cast_scalar (dtype M) t \<longrightarrow> pixel_at R i j = pixel_at S i j) \<and>
        (dtype M = Float64 \<or> cast_scalar (dtype M) t = t \<longrightarrow>
           pixel_at R i j = (if fless (pixel_at M i j) t then Fin 1 else pixel_at S i j) \<and>
           (pixel_at M i j = t \<longrightarrow> pixel_at R i j = pixel_at S i j)))"
proof -
  let ?R = "S\<lparr>data := setitem_mask (data S) (less_scalar M t) (Fin 1)\<rparr>"
  let ?t = "cast_scalar (dtype M) t"
  have len: "length (data M) = length (data S)"
    using assms by (simp add: wf_array_def)
  have r: "create_masked_stipple S M t = Inr ?R"
    using assms(3) by (simp add: create_masked_stipple_def)
  have wf: "wf_array ?R"
    using assms(1) len by (simp add: wf_array_def length_setitem_mask length_less_scalar)
  have c64: "?t = t" if "dtype M = Float64"
    using that by simp
  have px: "pixel_at ?R i j = (if fless (pixel_at M i j) ?t then Fin 1 else pixel_at S i j)"
    if "i < fst (shape S)" "j < snd (shape S)" for i j
  proof -
    have k: "i * snd (shape S) + j < length (data S)"
      using flat_index_bound [OF that] assms(1) by (simp add: wf_array_def)
    show ?thesis
      using k len assms(3)
      by (simp add: pixel_at_def nth_setitem_mask length_less_scalar nth_less_scalar)
  qed
  have eq: "pixel_at ?R i j = pixel_at S i j"
    if "i < fst (shape S)" "j < snd (shape S)" "pixel_at M i j = ?t" for i j
    using px [OF that(1,2)] that(3) fless_irrefl [of ?t] by simp
  have ex: "pixel_at ?R i j = (if fless (pixel_at M i j) t then Fin 1 else pixel_at S i j) \<and>
      (pixel_at M i j = t \<longrightarrow> pixel_at ?R i j = pixel_at S i j)"
    if "i < fst (shape S)" "j < snd (shape S)" "dtype M = Float64 \<or> ?t = t" for i j
  proof -
    have "?t = t" using that(3) c64 by blast
    then show ?thesis
      using px [OF that(1,2)] fless_irrefl [of t] by simp
  qed
  have "shape ?R = shape S" "dtype ?R = dtype S"
    by simp_all
  then show ?thesis
    using r wf px eq ex by blast
qed

text \<open>
  An instance with a single-precision mask and the default threshold 0.5, which single
  precision represents: in a 1 x 2 image the first mask value equals the threshold (the
  pixel is kept), the second is below it (the pixel becomes 1.0).
\<close>

theorem masked_pixelwise_witness:
  "wf_array \<lparr>dtype = Float64, shape = (1, 2), data = [Fin 0, Fin (1/4)]\<rparr> \<and>
   wf_array \<lparr>dtype = Float32, shape = (1, 2), data = [Fin (1/2), Fin (1/4)]\<rparr> \<and>
   cast_scalar Float32 (Fin (1/2)) = Fin (1/2) \<and>
   (\<exists>R. create_masked_stipple \<lparr>dtype = Float64, shape = (1, 2), data = [Fin 0, Fin (1/4)]\<rparr>
           \<lparr>dtype = Float32, shape = (1, 2), data = [Fin (1/2), Fin (1/4)]\<rparr> (Fin (1/2)) = Inr R \<and>
        shape R = (1, 2) \<and> dtype R = Float64 \<and>
        pixel_at R 0 0 = Fin 0 \<and> pixel_at R 0 1 = Fin 1)"
proof -
  let ?S = "\<lparr>dtype = Float64, shape = (1, 2), data = [Fin 0, Fin (1/4)]\<rparr>"
  let ?M = "\<lparr>dtype = Float32, shape = (1, 2), data = [Fin (1/2), Fin (1/4)]\<rparr>"
  have h1: "wf_array ?S" by (simp add: wf_array_def)
  have h2: "wf_array ?M" by (simp add: wf_array_def)
  have h3: "shape ?S = shape ?M" by simp
  have c: "cast_scalar Float32 (Fin (1/2)) = Fin (1/2)" by (simp add: round32_half)
  from masked_pixelwise [OF h1 h2 h3, of "Fin (1/2)"]
  obtain R where r: "create_masked_stipple ?S ?M (Fin (1/2)) = Inr R" "shape R = shape ?S"
      "dtype R = dtype ?S"
    and px: "\<forall>i < fst (shape ?S). \<forall>j < snd (shape ?S).
        dtype ?M = Float64 \<or> cast_scalar (dtype ?M) (Fin (1/2)) = Fin (1/2) \<longrightarrow>
        pixel_at R i j = (if fless (pixel_at ?M i j) (Fin (1/2)) then Fin 1 else pixel_at ?S i j)"
    by blast
  have "pixel_at R 0 0 = Fin 0"
    using px [rule_format, of 0 0] c by (simp add: pixel_at_def)
  moreover have "pixel_at R 0 1 = Fin 1"
    using px [rule_format, of 0 1] c by (simp add: pixel_at_def)
  ultimately show ?thesis
    using h1 h2 c r by auto
qed

subsection \<open>Shape check\<close>

text \<open>
  C2. The Mask Applicator raises exactly when the two shapes differ. With equal shapes
  it returns an array of that shape. With different shapes it raises ValueError, the
  message spells out both shapes, and, over the store, the check comes before the copy:
  no array is allocated and the store is left as it was.
\<close>

theorem masked_raises_iff_shapes_differ:
  "(case create_masked_stipple S M t of
      Inl e \<Rightarrow> shape S \<noteq> shape M \<and>
               e = ValueError (''Images must have the same shape. stipple_img: '' @
                     str_shape (shape S) @ '', mask_img: '' @ str_shape (shape M))
    | Inr R \<Rightarrow> shape S = shape M \<and> shape R = shape S) \<and>
   (case create_masked_stipple_st h s m t of
      (Inl e, h') \<Rightarrow> shape (h ! s) \<noteq> shape (h ! m) \<and> h' = h \<and>
               e = ValueError (''Images must have the same shape. stipple_img: '' @
                     str_shape (shape (h ! s)) @ '', mask_img: '' @ str_shape (shape (h ! m)))
    | (Inr r, h') \<Rightarrow> shape (h ! s) = shape (h ! m) \<and> shape (h' ! r) = shape (h ! s))"
  by (simp add: create_masked_stipple_def create_masked_stipple_st_def shape_message_def
        np_copy_def np_setitem_mask_def Let_def)

text \<open>
  The scenario of shapes (10,10) and (10,11): the call raises, and the message reads as
  Python formats it.
\<close>

theorem masked_raises_iff_shapes_differ_witness:
  "create_masked_stipple \<lparr>dtype = Float32, shape = (10, 10), data = replicate 100 (Fin 0)\<rparr>
     \<lparr>dtype = Float32, shape = (10, 11), data = replicate 110 (Fin 0)\<rparr> (Fin (1/2)) =
   Inl (ValueError
     ''Images must have the same shape. stipple_img: (10, 10), mask_img: (10, 11)'')"
proof -
  let ?S = "\<lparr>dtype = Float32, shape = (10, 10), data = replicate 100 (Fin 0)\<rparr>"
  let ?M = "\<lparr>dtype = Float32, shape = (10, 11), data = replicate 110 (Fin 0)\<rparr>"
  have s1: "str_shape (10, 10) = ''(10, 10)''" by code_simp
  have s2: "str_shape (10, 11) = ''(10, 11)''" by code_simp
  have ne: "shape ?S \<noteq> shape ?M" by simp
  obtain e where e: "create_masked_stipple ?S ?M (Fin (1/2)) = Inl e"
    using ne by (simp add: create_masked_stipple_def)
  from masked_raises_iff_shapes_differ [of ?S ?M "Fin (1/2)" "[]" 0 0]
  have "e = ValueError (''Images must have the same shape. stipple_img: '' @
                     str_shape (shape ?S) @ '', mask_img: '' @ str_shape (shape ?M))"
    unfolding e by simp
  then show ?thesis
    using e s1 s2 by simp
qed

subsection \<open>Frame: the arguments are not written\<close>

text \<open>
  C3. Over the store, for any two valid argument addresses (also one address passed
  twice): every array that existed before the call is unchanged after it, so neither S
  nor M is mutated; the result is at an address that did not exist before (the next free
  one), and it holds the value the pure function computes.
\<close>

theorem masked_store_frame:
  assumes "s < length h" "m < length h"
  shows "case create_masked_stipple_st h s m t of
           (res, h') \<Rightarrow>
             (\<forall>a < length h. h' ! a = h ! a) \<and>
             (case res of
                Inl e \<Rightarrow> h' = h
              | Inr r \<Rightarrow> r = length h \<and> length h' = Suc (length h) \<and>
                         create_masked_stipple (h ! s) (h ! m) t = Inr (h' ! r))"
  using assms
  by (auto simp: create_masked_stipple_st_value nth_append split: sum.splits)

text \<open>
  An instance with the stipple image at address 0 and the mask at address 1: the result
  lands at address 2 and both arguments still hold their values.
\<close>

theorem masked_store_frame_witness:
  "(0::nat) < length [\<lparr>dtype = Float32, shape = (1, 2), data = [Fin 0, Fin 0]\<rparr>,
                      \<lparr>dtype = Float32, shape = (1, 2), data = [Fin 1, Fin 0]\<rparr>] \<and>
   (1::nat) < length [\<lparr>dtype = Float32, shape = (1, 2), data = [Fin 0, Fin 0]\<rparr>,
                      \<lparr>dtype = Float32, shape = (1, 2), data = [Fin 1, Fin 0]\<rparr>] \<and>
   (\<exists>h'. create_masked_stipple_st
            [\<lparr>dtype = Float32, shape = (1, 2), data = [Fin 0, Fin 0]\<rparr>,
             \<lparr>dtype = Float32, shape = (1, 2), data = [Fin 1, Fin 0]\<rparr>] 0 1 (Fin (1/2)) = (Inr 2, h') \<and>
          h' ! 0 = \<lparr>dtype = Float32, shape = (1, 2), data = [Fin 0, Fin 0]\<rparr> \<and>
          h' ! 1 = \<lparr>dtype = Float32, shape = (1, 2), data = [Fin 1, Fin 0]\<rparr> \<and>
          length h' = 3)"
proof -
  let ?h = "[\<lparr>dtype = Float32, shape = (1, 2), data = [Fin 0, Fin 0]\<rparr>,
             \<lparr>dtype = Float32, shape = (1, 2), data = [Fin 1, Fin 0]\<rparr>]"
  have h1: "(0::nat) < length ?h" by simp
  have h2: "(1::nat) < length ?h" by simp
  obtain res h' where c: "create_masked_stipple_st ?h 0 1 (Fin (1/2)) = (res, h')"
    by (cases "create_masked_stipple_st ?h 0 1 (Fin (1/2))") blast
  have ok: "\<exists>r. res = Inr r"
    using c by (auto simp: create_masked_stipple_st_def np_copy_def Let_def)
  from masked_store_frame [OF h1 h2, of "Fin (1/2)"] c ok
  have "res = Inr 2 \<and> h' ! 0 = ?h ! 0 \<and> h' ! 1 = ?h ! 1 \<and> length h' = 3"
    by auto
  then show ?thesis
    using c by simp
qed

subsection \<open>Idempotence and commutation\<close>

text \<open>
  C4. With the mask and the threshold fixed, applying the mask to the result of a first
  application gives that result again.
\<close>

theorem masked_idempotent:
  assumes "shape S = shape M"
  shows "\<exists>R. create_masked_stipple S M t = Inr R \<and> create_masked_stipple R M t = Inr R"
  using assms by (simp add: create_masked_stipple_def setitem_mask_twice)

theorem masked_idempotent_witness:
  "shape \<lparr>dtype = Float32, shape = (1, 2), data = [Fin 0, Fin (1/4)]\<rparr> =
     shape \<lparr>dtype = Float32, shape = (1, 2), data = [Fin (1/2), Fin (1/5)]\<rparr> \<and>
   (\<exists>R. create_masked_stipple \<lparr>dtype = Float32, shape = (1, 2), data = [Fin 0, Fin (1/4)]\<rparr>
           \<lparr>dtype = Float32, shape = (1, 2), data = [Fin (1/2), Fin (1/5)]\<rparr> (Fin (1/2)) = Inr R \<and>
        create_masked_stipple R \<lparr>dtype = Float32, shape = (1, 2), data = [Fin (1/2), Fin (1/5)]\<rparr> (Fin (1/2))
          = Inr R)"
proof -
  let ?S = "\<lparr>dtype = Float32, shape = (1, 2), data = [Fin 0, Fin (1/4)]\<rparr>"
  let ?M = "\<lparr>dtype = Float32, shape = (1, 2), data = [Fin (1/2), Fin (1/5)]\<rparr>"
  have h: "shape ?S = shape ?M" by simp
  from masked_idempotent [OF h, of "Fin (1/2)"] h show ?thesis by blast
qed

text \<open>
  Both orders of applying two single-precision masks at the threshold 0.7: the first
  mask holds the single-precision number nearest to 0.7, which is below the threshold,
  the second holds 1.0. Either application returns the image as it was, so both orders
  leave the pixel at 0.0, although it lies in the first mask's region below the
  threshold.
\<close>

theorem masked_commute_float32_counterexample:
  "create_masked_stipple \<lparr>dtype = Float64, shape = (1, 1), data = [Fin 0]\<rparr>
     \<lparr>dtype = Float32, shape = (1, 1), data = [Fin (11744051/16777216)]\<rparr>
     (Fin (3152519739159347/4503599627370496)) =
     Inr \<lparr>dtype = Float64, shape = (1, 1), data = [Fin 0]\<rparr> \<and>
   create_masked_stipple \<lparr>dtype = Float64, shape = (1, 1), data = [Fin 0]\<rparr>
     \<lparr>dtype = Float32, shape = (1, 1), data = [Fin 1]\<rparr>
     (Fin (3152519739159347/4503599627370496)) =
     Inr \<lparr>dtype = Float64, shape = (1, 1), data = [Fin 0]\<rparr> \<and>
   fless (pixel_at \<lparr>dtype = Float32, shape = (1, 1), data = [Fin (11744051/16777216)]\<rparr> 0 0)
     (Fin (3152519739159347/4503599627370496))"
  by (simp add: create_masked_stipple_def less_scalar_def setitem_mask_def round32_double_0_7
        pixel_at_def)

text \<open>
  C10, as the code has it. Two masks of the shape of S may be applied in either order:
  both orders return the same image, which is 1.0 exactly where one of the two masks is
  below the threshold converted to that mask's element type, and S elsewhere. When both
  conversions are exact, that region is the union of the two regions below the
  threshold itself.
\<close>

theorem masked_commute:
  assumes "wf_array S" "wf_array M1" "wf_array M2" "shape S = shape M1" "shape S = shape M2"
  shows "\<exists>A B R. create_masked_stipple S M1 t = Inr A \<and> create_masked_stipple S M2 t = Inr B \<and>
           create_masked_stipple A M2 t = Inr R \<and> create_masked_stipple B M1 t = Inr R \<and>
           shape R = shape S \<and>
           (\<forall>i < fst (shape S). \<forall>j < snd (shape S).
              pixel_at R i j =
                (if fless (pixel_at M1 i j) (cast_scalar (dtype M1) t) \<or>
                    fless (pixel_at M2 i j) (cast_scalar (dtype M2) t)
                 then Fin 1 else pixel_at S i j) \<and>
              (cast_scalar (dtype M1) t = t \<and> cast_scalar (dtype M2) t = t \<longrightarrow>
                 pixel_at R i j =
                   (if fless (pixel_at M1 i j) t \<or> fless (pixel_at M2 i j) t then Fin 1
                    else pixel_at S i j)))"
proof -
  let ?A = "S\<lparr>data := setitem_mask (data S) (less_scalar M1 t) (Fin 1)\<rparr>"
  let ?B = "S\<lparr>data := setitem_mask (data S) (less_scalar M2 t) (Fin 1)\<rparr>"
  let ?R = "?A\<lparr>data := setitem_mask (data ?A) (less_scalar M2 t) (Fin 1)\<rparr>"
  have l1: "length (data M1) = length (data S)" and l2: "length (data M2) = length (data S)"
    using assms by (simp_all add: wf_array_def)
  have a: "create_masked_stipple S M1 t = Inr ?A"
    using assms(4) by (simp add: create_masked_stipple_def)
  have b: "create_masked_stipple S M2 t = Inr ?B"
    using assms(5) by (simp add: create_masked_stipple_def)
  have ab: "create_masked_stipple ?A M2 t = Inr ?R"
    using assms(5) by (simp add: create_masked_stipple_def)
  have ba: "create_masked_stipple ?B M1 t = Inr ?R"
    using assms(4)
    by (simp add: create_masked_stipple_def setitem_mask_swap [of _ "less_scalar M2 t"])
  have px: "pixel_at ?R i j =
      (if fless (pixel_at M1 i j) (cast_scalar (dtype M1) t) \<or>
          fless (pixel_at M2 i j) (cast_scalar (dtype M2) t)
       then Fin 1 else pixel_at S i j)"
    if "i < fst (shape S)" "j < snd (shape S)" for i j
  proof -
    have k: "i * snd (shape S) + j < length (data S)"
      using flat_index_bound [OF that] assms(1) by (simp add: wf_array_def)
    show ?thesis
      using k l1 l2 assms(4,5)
      by (simp add: pixel_at_def nth_setitem_mask length_setitem_mask length_less_scalar
            nth_less_scalar)
  qed
  have ex: "pixel_at ?R i j =
      (if fless (pixel_at M1 i j) t \<or> fless (pixel_at M2 i j) t then Fin 1 else pixel_at S i j)"
    if "i < fst (shape S)" "j < snd (shape S)"
      "cast_scalar (dtype M1) t = t \<and> cast_scalar (dtype M2) t = t" for i j
    using px [OF that(1,2)] that(3) by simp
  have "shape ?R = shape S"
    by simp
  then show ?thesis
    using a b ab ba px ex by blast
qed

text \<open>
  An instance with single-precision masks and the default threshold 0.5.
\<close>

theorem masked_commute_witness:
  "wf_array \<lparr>dtype = Float64, shape = (1, 2), data = [Fin 0, Fin (1/4)]\<rparr> \<and>
   wf_array \<lparr>dtype = Float32, shape = (1, 2), data = [Fin 0, Fin 1]\<rparr> \<and>
   wf_array \<lparr>dtype = Float32, shape = (1, 2), data = [Fin 1, Fin 1]\<rparr> \<and>
   (\<exists>A B R.
      create_masked_stipple \<lparr>dtype = Float64, shape = (1, 2), data = [Fin 0, Fin (1/4)]\<rparr>
        \<lparr>dtype = Float32, shape = (1, 2), data = [Fin 0, Fin 1]\<rparr> (Fin (1/2)) = Inr A \<and>
      create_masked_stipple \<lparr>dtype = Float64, shape = (1, 2), data = [Fin 0, Fin (1/4)]\<rparr>
        \<lparr>dtype = Float32, shape = (1, 2), data = [Fin 1, Fin 1]\<rparr> (Fin (1/2)) = Inr B \<and>
      create_masked_stipple A \<lparr>dtype = Float32, shape = (1, 2), data = [Fin 1, Fin 1]\<rparr>
        (Fin (1/2)) = Inr R \<and>
      create_masked_stipple B \<lparr>dtype = Float32, shape = (1, 2), data = [Fin 0, Fin 1]\<rparr>
        (Fin (1/2)) = Inr R \<and>
      pixel_at R 0 0 = Fin 1 \<and> pixel_at R 0 1 = Fin (1/4))"
proof -
  let ?S = "\<lparr>dtype = Float64, shape = (1, 2), data = [Fin 0, Fin (1/4)]\<rparr>"
  let ?M1 = "\<lparr>dtype = Float32, shape = (1, 2), data = [Fin 0, Fin 1]\<rparr>"
  let ?M2 = "\<lparr>dtype = Float32, shape = (1, 2), data = [Fin 1, Fin 1]\<rparr>"
  have h1: "wf_array ?S" by (simp add: wf_array_def)
  have h2: "wf_array ?M1" by (simp add: wf_array_def)
  have h3: "wf_array ?M2" by (simp add: wf_array_def)
  have h4: "shape ?S = shape ?M1" by simp
  have h5: "shape ?S = shape ?M2" by simp
  from masked_commute [OF h1 h2 h3 h4 h5, of "Fin (1/2)"]
  obtain A B R where r: "create_masked_stipple ?S ?M1 (Fin (1/2)) = Inr A"
      "create_masked_stipple ?S ?M2 (Fin (1/2)) = Inr B"
      "create_masked_stipple A ?M2 (Fin (1/2)) = Inr R"
      "create_masked_stipple B ?M1 (Fin (1/2)) = Inr R"
    and px: "\<forall>i < fst (shape ?S). \<forall>j < snd (shape ?S).
        pixel_at R i j =
          (if fless (pixel_at ?M1 i j) (cast_scalar (dtype ?M1) (Fin (1/2))) \<or>
              fless (pixel_at ?M2 i j) (cast_scalar (dtype ?M2) (Fin (1/2)))
           then Fin 1 else pixel_at ?S i j)"
    by blast
  have "pixel_at R 0 0 = Fin 1"
    using px [rule_format, of 0 0] by (simp add: pixel_at_def round32_half)
  moreover have "pixel_at R 0 1 = Fin (1/4)"
    using px [rule_format, of 0 1] by (simp add: pixel_at_def round32_half)
  ultimately show ?thesis
    using h1 h2 h3 r by blast
qed

section \<open>Properties of the Mask Synthesizer\<close>

subsection \<open>Auxiliary facts\<close>


lemma div255_exact: "a \<le> 255 \<Longrightarrow> div255 (a * 255) = a"
  unfolding div255_def Let_def by arith

lemma unat_le_255: "unat (p :: 8 word) \<le> 255"
  using unsigned_less [of p, where ?'a = nat] by simp

lemma blend8_none: "blend8 0 old fill = old"
  using unat_le_255 [of old] by (simp add: blend8_def div255_exact)

lemma blend8_full: "blend8 255 old fill = fill"
  using unat_le_255 [of fill] by (simp add: blend8_def div255_exact)

lemma length_draw_text: "length (pixels (draw_text env img xy text fill fnt)) = length (pixels img)"
  by (simp add: draw_text_def Let_def)

lemma size_draw_text: "size_L (draw_text env img xy text fill fnt) = size_L img"
  by (simp add: draw_text_def Let_def)

lemma nth_draw_text:
  "k < length (pixels img) \<Longrightarrow>
   pixels (draw_text env img xy text fill fnt) ! k =
     blend8 (coverage env fnt text (int (k mod fst (size_L img)) - fst xy)
               (int (k div fst (size_L img)) - snd xy)) (pixels img ! k) fill"
  by (simp add: draw_text_def Let_def nth_enumerate_eq)

lemma byte_unit: "0 \<le> real (unat (p :: 8 word)) / 255 \<and> real (unat p) / 255 \<le> 1"
proof -
  have "real (unat p) \<le> real 255"
    using unat_le_255 [of p] by (rule of_nat_mono)
  then show ?thesis by (simp del: of_nat_unat)
qed

lemma in_unit_byte: "in_unit (round32 (real (unat (p :: 8 word)) / 255))"
  using byte_unit [of p] by (intro in_unit_round32) simp_all

lemma values_in_unit_to_float_array: "values_in_unit (to_float_array img)"
  by (simp add: values_in_unit_def to_float_array_def list_all_iff in_unit_byte del: of_nat_unat)

text \<open>
  The font size: a smaller side below 2^53 is a double; the product with the ratio is
  rounded and truncated.
\<close>

lemma font_size_of_exact_side:
  assumes "0 \<le> min H W" "min H W < 2 ^ 53"
  shows "font_size_of H W r =
     (case round64 (real_of_int (min H W) * r) of
        Fin y \<Rightarrow> Inr (py_int y)
      | _ \<Rightarrow> Inl (OverflowError ''cannot convert float infinity to integer''))"
proof -
  have "\<bar>min H W\<bar> < 2 ^ 53" using assms by simp
  then have "round64 (real_of_int (min H W)) = Fin (real_of_int (min H W))"
    by (rule round64_of_int)
  then show ?thesis by (simp add: font_size_of_def)
qed

lemma font_size_of_returns:
  assumes "0 \<le> min H W" "min H W < 2 ^ 53" "\<bar>real_of_int (min H W) * r\<bar> \<le> 2 ^ 1023"
  shows "\<exists>fs. font_size_of H W r = Inr fs"
proof -
  have "\<bar>real_of_int (min H W) * r\<bar> \<le> 2 powi 1023"
    using assms(3) by (simp only: power_int_numeral)
  from round_float_bounded [of 53 "-1022" 1023 1023, OF _ _ _ this]
  obtain y where "round64 (real_of_int (min H W) * r) = Fin y"
    by (auto simp: round64_def)
  then show ?thesis
    by (simp add: font_size_of_exact_side [OF assms(1,2)])
qed

lemma font_size_of_fenced:
  assumes "0 \<le> min H W" "min H W < 2 ^ 53" "0 \<le> r" "r \<le> 1"
  shows "\<exists>fs. font_size_of H W r = Inr fs \<and>
           \<lfloor>real_of_int (min H W) * r\<rfloor> \<le> fs \<and> fs \<le> \<lceil>real_of_int (min H W) * r\<rceil>"
proof -
  let ?x = "real_of_int (min H W) * r"
  have x0: "0 \<le> ?x" using assms(1,3) by simp
  have "?x \<le> real_of_int (min H W) * 1"
    using assms(1,4) by (intro mult_left_mono) simp_all
  moreover have "real_of_int (min H W) < 2 ^ 53"
    using assms(2) by (metis of_int_less_numeral_power_cancel_iff)
  ultimately have "\<bar>?x\<bar> < 2 ^ 53" using x0 by simp
  from round_float_int_fence [of 53 "-1022" 1023, OF _ _ _ this]
  obtain y where y: "round64 ?x = Fin y"
    and f: "\<forall>n. of_int n \<le> ?x \<longrightarrow> of_int n \<le> y" "\<forall>n. ?x \<le> of_int n \<longrightarrow> y \<le> of_int n"
    by (auto simp: round64_def)
  have "font_size_of H W r = Inr (py_int y)"
    by (simp add: font_size_of_exact_side [OF assms(1,2)] y)
  then show ?thesis
    using py_int_fenced [OF x0 f] by simp
qed

lemma font_size_of_exact_product:
  assumes "0 \<le> min H W" "min H W < 2 ^ 53" "0 \<le> r"
    and "round64 (real_of_int (min H W) * r) = Fin (real_of_int (min H W) * r)"
  shows "font_size_of H W r = Inr \<lfloor>real_of_int (min H W) * r\<rfloor>"
proof -
  have "0 \<le> real_of_int (min H W) * r" using assms(1,3) by simp
  then show ?thesis
    by (simp add: font_size_of_exact_side [OF assms(1,2)] assms(4) py_int_def)
qed

text \<open>
  Which font the selection returns: the first listed path that exists and loads, else
  \<open>arial.ttf\<close>, else the default font.
\<close>

lemma try_font_paths_Some:
  "try_font_paths env n ps = Some f \<Longrightarrow>
   \<exists>pre p suf. ps = pre @ p # suf \<and>
     (\<forall>q \<in> set pre. \<not> (path_exists env q \<and> truetype_loads env q n)) \<and>
     path_exists env p \<and> truetype_loads env p n \<and> f = FreeTypeFont p n"
proof (induction ps)
  case Nil
  then show ?case by simp
next
  case (Cons a ps)
  show ?case
  proof (cases "path_exists env a \<and> truetype_loads env a n")
    case True
    then have "f = FreeTypeFont a n" using Cons.prems by simp
    then have "a # ps = [] @ a # ps \<and>
        (\<forall>q \<in> set []. \<not> (path_exists env q \<and> truetype_loads env q n)) \<and>
        path_exists env a \<and> truetype_loads env a n \<and> f = FreeTypeFont a n"
      using True by simp
    then show ?thesis by blast
  next
    case False
    then have "try_font_paths env n ps = Some f" using Cons.prems by (simp split: if_splits)
    from Cons.IH [OF this] obtain pre p suf where
      "ps = pre @ p # suf" "\<forall>q \<in> set pre. \<not> (path_exists env q \<and> truetype_loads env q n)"
      "path_exists env p" "truetype_loads env p n" "f = FreeTypeFont p n"
      by blast
    then have "a # ps = (a # pre) @ p # suf \<and>
        (\<forall>q \<in> set (a # pre). \<not> (path_exists env q \<and> truetype_loads env q n)) \<and>
        path_exists env p \<and> truetype_loads env p n \<and> f = FreeTypeFont p n"
      using False by simp
    then show ?thesis by blast
  qed
qed

lemma try_font_paths_None:
  "try_font_paths env n ps = None \<Longrightarrow>
   \<forall>q \<in> set ps. \<not> (path_exists env q \<and> truetype_loads env q n)"
  by (induction ps) (auto split: if_splits)

lemma select_font_cases:
  "(\<exists>pre p suf. font_paths = pre @ p # suf \<and>
      (\<forall>q \<in> set pre. \<not> (path_exists env q \<and> truetype_loads env q n)) \<and>
      path_exists env p \<and> truetype_loads env p n \<and> select_font env n = FreeTypeFont p n) \<or>
   ((\<forall>q \<in> set font_paths. \<not> (path_exists env q \<and> truetype_loads env q n)) \<and>
    (if truetype_loads env ''arial.ttf'' n then select_font env n = FreeTypeFont ''arial.ttf'' n
     else select_font env n = DefaultFont))"
proof (cases "try_font_paths env n font_paths")
  case None
  from try_font_paths_None [OF this] None show ?thesis
    by (simp add: select_font_def)
next
  case (Some f)
  from try_font_paths_Some [OF this] Some show ?thesis
    by (simp add: select_font_def)
qed

lemma create_block_letter_s_returns:
  assumes "0 \<le> H" "0 \<le> W" "font_size_of H W r = Inr fs"
  shows "create_block_letter_s env H W letter r =
     Inr (to_float_array
       (draw_text env \<lparr>size_L = (nat W, nat H), pixels = replicate (nat W * nat H) 255\<rparr>
          (text_position H W (textbbox env (select_font env fs) letter))
          letter 0 (select_font env fs)))"
  using assms by (simp add: create_block_letter_s_def Image_new_def Let_def)

lemma create_block_letter_s_in_unit:
  "create_block_letter_s env H W letter r = Inr img \<Longrightarrow> values_in_unit img"
  by (auto simp: create_block_letter_s_def Let_def values_in_unit_to_float_array
      split: sum.splits)

text \<open>
  When the product of the smaller side and the ratio is beyond the range of a double, the
  truncation of the infinite product raises OverflowError.
\<close>

lemma create_block_letter_s_overflow:
  assumes "0 \<le> H" "0 \<le> W" "min H W < 2 ^ 53" "2 ^ 1024 \<le> \<bar>real_of_int (min H W) * r\<bar>"
  shows "create_block_letter_s env H W letter r =
     Inl (OverflowError ''cannot convert float infinity to integer'')"
proof -
  have m0: "0 \<le> min H W" using assms(1,2) by simp
  have "(2::real) powi (1023 + 1) = 2 ^ 1024" by simp
  then have "2 powi (1023 + 1) \<le> \<bar>real_of_int (min H W) * r\<bar>"
    using assms(4) by (simp only:)
  from round_float_overflow [of 53 "-1022" 1023, OF _ _ this]
  have "round64 (real_of_int (min H W) * r) = PInf \<or> round64 (real_of_int (min H W) * r) = MInf"
    by (simp add: round64_def)
  then have "font_size_of H W r = Inl (OverflowError ''cannot convert float infinity to integer'')"
    by (auto simp: font_size_of_exact_side [OF m0 assms(3)])
  then show ?thesis
    using assms(1,2) by (simp add: create_block_letter_s_def Image_new_def)
qed

lemma pixel_at_create_block_letter_s:
  assumes "0 \<le> H" "0 \<le> W" "i < nat H" "j < nat W" "font_size_of H W r = Inr fs"
    and "create_block_letter_s env H W letter r = Inr img"
  shows "pixel_at img i j =
     round32 (real (unat (blend8
        (coverage env (select_font env fs) letter
           (int j - fst (text_position H W (textbbox env (select_font env fs) letter)))
           (int i - snd (text_position H W (textbbox env (select_font env fs) letter))))
        255 0)) / 255)"
proof -
  have k: "i * nat W + j < nat W * nat H"
    using flat_index_bound [OF assms(3,4)] by (simp add: mult.commute)
  have m: "(i * nat W + j) mod nat W = j" and d: "(i * nat W + j) div nat W = i"
    using assms(4) by simp_all
  have img: "img = to_float_array
       (draw_text env \<lparr>size_L = (nat W, nat H), pixels = replicate (nat W * nat H) 255\<rparr>
          (text_position H W (textbbox env (select_font env fs) letter))
          letter 0 (select_font env fs))"
    using create_block_letter_s_returns [OF assms(1,2,5), of env letter] assms(6) by simp
  show ?thesis
    unfolding img using k assms(4)
    by (simp add: pixel_at_def to_float_array_def size_draw_text length_draw_text nth_draw_text m d
          del: of_nat_unat)
qed


lemma centred_margin: "(W - ((W - (b2 - b0)) div 2 - b0 + b2)) - ((W - (b2 - b0)) div 2 - b0 + b0) \<in> {0, 1::int}"
proof -
  define d where "d = W - (b2 - b0)"
  have "(W - (d div 2 - b0 + b2)) - (d div 2 - b0 + b0) = d - 2 * (d div 2)"
    by (simp add: d_def)
  also have "\<dots> = d mod 2"
    by (simp add: minus_mult_div_eq_mod)
  finally show ?thesis
    unfolding d_def by auto
qed


lemma ink_within_bboxD:
  assumes "ink_within_bbox env" "textbbox env f s = (l, t, r, b)"
    and "\<not> (l \<le> dx \<and> dx < r \<and> t \<le> dy \<and> dy < b)"
  shows "coverage env f s dx dy = 0"
proof -
  have "case textbbox env f s of
          (l, t, r, b) \<Rightarrow> \<not> (l \<le> dx \<and> dx < r \<and> t \<le> dy \<and> dy < b) \<longrightarrow> coverage env f s dx dy = 0"
    using assms(1) [unfolded ink_within_bbox_def] by (elim allE)
  then show ?thesis
    using assms(2,3) by simp
qed

subsection \<open>Contract\<close>

text \<open>
  The font size is the truncation of the product computed in double precision, not of
  the exact product. For a 10 by 10 canvas and the ratio 0.7, a double slightly below
  7/10, the product rounds to 7.0 and the font size is 7, while the floor of the product
  is 6.
\<close>

theorem synthesizer_font_size_counterexample:
  "font_size_of 10 10 (3152519739159347/4503599627370496) = Inr 7 \<and>
   \<lfloor>real_of_int (min 10 10) * (3152519739159347/4503599627370496)\<rfloor> = 6"
proof -
  have "font_size_of 10 10 (3152519739159347/4503599627370496) =
      (case round64 (real_of_int (min 10 10) * (3152519739159347/4503599627370496)) of
         Fin y \<Rightarrow> Inr (py_int y)
       | _ \<Rightarrow> Inl (OverflowError ''cannot convert float infinity to integer''))"
    by (rule font_size_of_exact_side) simp_all
  then have "font_size_of 10 10 (3152519739159347/4503599627370496) = Inr 7"
    using round64_10_times_0_7 by (simp add: py_int_def)
  then show ?thesis by simp
qed

text \<open>
  C6, as the code has it. For positive height H and width W (the smaller below 2^53), any
  glyph and a ratio r in (0,1], on a platform whose fonts ink nothing outside their
  bounding box, the Mask Synthesizer returns a single-precision image of shape exactly
  (H, W) with all values in [0,1]. The font size it asks for is the truncation of
  min(H, W) * r rounded to a double: it is floor(min(H, W) * r) or, when the rounding
  reaches the next integer, that integer, and it is the floor whenever the product is a
  double. The font is the first of the listed files that exists and loads at that size,
  else \<open>arial.ttf\<close> at that size, else the built-in default font, which has its own size.
  The glyph's bounding box sits centred on the canvas (the left and right margins, and
  the top and bottom margins, differ by at most one pixel); every pixel outside that
  box, and every pixel the glyph does not cover, is white (1.0), and every pixel the
  glyph covers fully is black (0.0).
\<close>

theorem synthesizer_contract:
  assumes "0 < H" "0 < W" "min H W < 2 ^ 53" "0 < r" "r \<le> 1" "ink_within_bbox env"
  shows "\<exists>img fs f. create_block_letter_s env H W letter r = Inr img \<and>
           shape img = (nat H, nat W) \<and> dtype img = Float32 \<and> wf_array img \<and>
           values_in_unit img \<and>
           font_size_of H W r = Inr fs \<and>
           \<lfloor>real_of_int (min H W) * r\<rfloor> \<le> fs \<and> fs \<le> \<lceil>real_of_int (min H W) * r\<rceil> \<and>
           (round64 (real_of_int (min H W) * r) = Fin (real_of_int (min H W) * r) \<longrightarrow>
              fs = \<lfloor>real_of_int (min H W) * r\<rfloor>) \<and>
           f = select_font env fs \<and>
           ((\<exists>pre p suf. font_paths = pre @ p # suf \<and>
               (\<forall>q \<in> set pre. \<not> (path_exists env q \<and> truetype_loads env q fs)) \<and>
               path_exists env p \<and> truetype_loads env p fs \<and> f = FreeTypeFont p fs) \<or>
            ((\<forall>q \<in> set font_paths. \<not> (path_exists env q \<and> truetype_loads env q fs)) \<and>
             (if truetype_loads env ''arial.ttf'' fs then f = FreeTypeFont ''arial.ttf'' fs
              else f = DefaultFont))) \<and>
           (case glyph_box env f H W letter of
              (lft, tp, rgt, btm) \<Rightarrow>
                lft = (W - (rgt - lft)) div 2 \<and>
                tp = (H - (btm - tp)) div 2 \<and>
                (W - rgt) - lft \<in> {0, 1} \<and>
                (H - btm) - tp \<in> {0, 1} \<and>
                (\<forall>i < nat H. \<forall>j < nat W.
                   (\<not> (lft \<le> int j \<and> int j < rgt \<and> tp \<le> int i \<and> int i < btm)
                      \<longrightarrow> pixel_at img i j = Fin 1) \<and>
                   (ink_at env f H W letter i j = 0 \<longrightarrow> pixel_at img i j = Fin 1) \<and>
                   (ink_at env f H W letter i j = 255 \<longrightarrow> pixel_at img i j = Fin 0)))"
proof -
  have nn: "0 \<le> H" "0 \<le> W" using assms by simp_all
  have m0: "0 \<le> min H W" using assms(1,2) by simp
  have r0: "0 \<le> r" using assms(4) by simp
  obtain fs where fs: "font_size_of H W r = Inr fs"
    and fence: "\<lfloor>real_of_int (min H W) * r\<rfloor> \<le> fs" "fs \<le> \<lceil>real_of_int (min H W) * r\<rceil>"
    using font_size_of_fenced [OF m0 assms(3) r0 assms(5)] by blast
  have exact: "round64 (real_of_int (min H W) * r) = Fin (real_of_int (min H W) * r) \<longrightarrow>
      fs = \<lfloor>real_of_int (min H W) * r\<rfloor>"
    using font_size_of_exact_product [OF m0 assms(3) r0] fs by simp
  define f where "f = select_font env fs"
  have choice: "(\<exists>pre p suf. font_paths = pre @ p # suf \<and>
               (\<forall>q \<in> set pre. \<not> (path_exists env q \<and> truetype_loads env q fs)) \<and>
               path_exists env p \<and> truetype_loads env p fs \<and> f = FreeTypeFont p fs) \<or>
            ((\<forall>q \<in> set font_paths. \<not> (path_exists env q \<and> truetype_loads env q fs)) \<and>
             (if truetype_loads env ''arial.ttf'' fs then f = FreeTypeFont ''arial.ttf'' fs
              else f = DefaultFont))"
    unfolding f_def by (rule select_font_cases)
  let ?bb = "textbbox env f letter"
  obtain b0 b1 b2 b3 where bb: "?bb = (b0, b1, b2, b3)"
    by (cases ?bb) auto
  let ?x = "(W - (b2 - b0)) div 2 - b0" and ?y = "(H - (b3 - b1)) div 2 - b1"
  have pos0: "text_position H W (b0, b1, b2, b3) = (?x, ?y)"
    by (simp add: text_position_def Let_def)
  have pos: "text_position H W ?bb = (?x, ?y)"
    by (simp only: bb pos0)
  have box: "glyph_box env f H W letter = (?x + b0, ?y + b1, ?x + b2, ?y + b3)"
    by (simp add: glyph_box_def Let_def bb pos0)
  have img_eq: "create_block_letter_s env H W letter r = Inr (to_float_array
       (draw_text env \<lparr>size_L = (nat W, nat H), pixels = replicate (nat W * nat H) 255\<rparr>
          (text_position H W ?bb) letter 0 f))"
    unfolding f_def by (rule create_block_letter_s_returns [OF nn fs])
  define img where "img = to_float_array
       (draw_text env \<lparr>size_L = (nat W, nat H), pixels = replicate (nat W * nat H) 255\<rparr>
          (text_position H W ?bb) letter 0 f)"
  have img: "create_block_letter_s env H W letter r = Inr img"
    unfolding img_def by (rule img_eq)
  have sh: "shape img = (nat H, nat W)"
    by (simp add: img_def to_float_array_def size_draw_text)
  have dt: "dtype img = Float32"
    by (simp add: img_def to_float_array_def)
  have wf: "wf_array img"
    by (simp add: img_def wf_array_def to_float_array_def size_draw_text length_draw_text mult.commute)
  have rng: "values_in_unit img"
    by (simp add: img_def values_in_unit_to_float_array)
  have ink: "ink_at env f H W letter i j = coverage env f letter (int j - ?x) (int i - ?y)"
    for i j
    by (simp add: ink_at_def Let_def pos)
  have px: "pixel_at img i j =
      round32 (real (unat (blend8 (ink_at env f H W letter i j) 255 0)) / 255)"
    if "i < nat H" "j < nat W" for i j
    using pixel_at_create_block_letter_s [OF nn that fs img]
    by (simp only: ink pos fst_conv snd_conv f_def [symmetric])
  have black: "pixel_at img i j = Fin 0"
    if "i < nat H" "j < nat W" and "ink_at env f H W letter i j = 255"
    for i j
    using px [OF that(1,2)] that(3) by (simp add: blend8_full round32_0)
  have clear: "pixel_at img i j = Fin 1"
    if "i < nat H" "j < nat W" and "ink_at env f H W letter i j = 0"
    for i j
    using px [OF that(1,2)] that(3) by (simp add: blend8_none round32_1)
  have white: "pixel_at img i j = Fin 1"
    if "i < nat H" "j < nat W"
      and out: "\<not> (?x + b0 \<le> int j \<and> int j < ?x + b2 \<and> ?y + b1 \<le> int i \<and> int i < ?y + b3)"
    for i j
  proof -
    have "\<not> (b0 \<le> int j - ?x \<and> int j - ?x < b2 \<and> b1 \<le> int i - ?y \<and> int i - ?y < b3)"
      using out by linarith
    then have "ink_at env f H W letter i j = 0"
      unfolding ink by (rule ink_within_bboxD [OF assms(6) bb])
    then show ?thesis
      by (rule clear [OF that(1,2)])
  qed
  have gx: "?x + b0 = (W - ((?x + b2) - (?x + b0))) div 2" by simp
  have gy: "?y + b1 = (H - ((?y + b3) - (?y + b1))) div 2" by simp
  have cx: "(W - (?x + b2)) - (?x + b0) \<in> {0, 1}" by (rule centred_margin)
  have cy: "(H - (?y + b3)) - (?y + b1) \<in> {0, 1}" by (rule centred_margin)
  have pix: "\<forall>i < nat H. \<forall>j < nat W.
      (\<not> (?x + b0 \<le> int j \<and> int j < ?x + b2 \<and> ?y + b1 \<le> int i \<and> int i < ?y + b3)
         \<longrightarrow> pixel_at img i j = Fin 1) \<and>
      (ink_at env f H W letter i j = 0 \<longrightarrow> pixel_at img i j = Fin 1) \<and>
      (ink_at env f H W letter i j = 255 \<longrightarrow> pixel_at img i j = Fin 0)"
    using white clear black by blast
  have geo: "case glyph_box env f H W letter of
              (lft, tp, rgt, btm) \<Rightarrow>
                lft = (W - (rgt - lft)) div 2 \<and>
                tp = (H - (btm - tp)) div 2 \<and>
                (W - rgt) - lft \<in> {0, 1} \<and>
                (H - btm) - tp \<in> {0, 1} \<and>
                (\<forall>i < nat H. \<forall>j < nat W.
                   (\<not> (lft \<le> int j \<and> int j < rgt \<and> tp \<le> int i \<and> int i < btm)
                      \<longrightarrow> pixel_at img i j = Fin 1) \<and>
                   (ink_at env f H W letter i j = 0 \<longrightarrow> pixel_at img i j = Fin 1) \<and>
                   (ink_at env f H W letter i j = 255 \<longrightarrow> pixel_at img i j = Fin 0))"
    unfolding box prod.case
    using gx gy cx cy pix by blast
  have fsel: "f = select_font env fs" by (rule f_def)
  show ?thesis
    using img sh dt wf rng fs fence exact fsel choice geo
    by (intro exI [of _ img] exI [of _ fs] exI [of _ f] conjI) assumption+
qed

text \<open>
  An instance on the block platform: a 3 by 4 canvas at ratio 0.75 asks for font size 2
  (the product 2.25 is a double); the font is DejaVu Sans Bold, the only listed file
  installed; the 2 by 2 glyph occupies columns 1 to 2 of rows 0 to 1.
\<close>

theorem synthesizer_contract_witness:
  "(0::int) < 3 \<and> (0::int) < 4 \<and> min 3 4 < (2::int) ^ 53 \<and> (0::real) < 3/4 \<and> (3/4::real) \<le> 1 \<and>
   ink_within_bbox block_platform \<and>
   (\<exists>img. create_block_letter_s block_platform 3 4 ''S'' (3/4) = Inr img \<and>
      shape img = (3, 4) \<and> dtype img = Float32 \<and> values_in_unit img \<and>
      font_size_of 3 4 (3/4) = Inr 2 \<and>
      glyph_box block_platform
        (FreeTypeFont ''/usr/share/fonts/truetype/dejavu/DejaVuSans-Bold.ttf'' 2) 3 4 ''S''
        = (1, 0, 3, 2) \<and>
      pixel_at img 0 0 = Fin 1 \<and> pixel_at img 0 1 = Fin 0)"
proof -
  let ?f = "FreeTypeFont ''/usr/share/fonts/truetype/dejavu/DejaVuSans-Bold.ttf'' 2"
  have h1: "(0::int) < 3" and h2: "(0::int) < 4" and h3: "min 3 4 < (2::int) ^ 53"
    and h4: "(0::real) < 3/4" and h5: "(3/4::real) \<le> 1"
    by simp_all
  have h6: "ink_within_bbox block_platform"
    by (simp add: ink_within_bbox_def block_platform_def split: prod.splits)
  have r94: "round64 (9/4) = Fin (9/4)"
    unfolding round64_def
    by (subst round_float_eval [where e = 1]) (simp_all add: round_half_even_def Let_def)
  have "font_size_of 3 4 (3/4) =
      (case round64 (real_of_int (min 3 4) * (3/4)) of
         Fin y \<Rightarrow> Inr (py_int y)
       | _ \<Rightarrow> Inl (OverflowError ''cannot convert float infinity to integer''))"
    by (rule font_size_of_exact_side) simp_all
  then have f: "font_size_of 3 4 (3/4) = Inr 2"
    using r94 by (simp add: py_int_def)
  have sf: "select_font block_platform 2 = ?f"
    by (simp add: select_font_def font_paths_def block_platform_def)
  have tb: "textbbox block_platform = block_font_bbox"
    by (simp add: block_platform_def)
  have cv: "coverage block_platform f s dx dy =
      (case block_font_bbox f s of
         (l, t, r, b) \<Rightarrow> if l \<le> dx \<and> dx < r \<and> t \<le> dy \<and> dy < b then 255 else 0)"
    for f s dx dy
    by (simp add: block_platform_def)
  have g: "glyph_box block_platform ?f 3 4 ''S'' = (1, 0, 3, 2)"
    by (simp add: glyph_box_def Let_def text_position_def tb block_font_bbox_def)
  have ink: "ink_at block_platform ?f 3 4 ''S'' 0 1 = 255"
    by (simp add: ink_at_def Let_def text_position_def tb cv block_font_bbox_def)
  have "\<exists>img. create_block_letter_s block_platform 3 4 ''S'' (3/4) = Inr img \<and>
      shape img = (3, 4) \<and> dtype img = Float32 \<and> values_in_unit img \<and>
      font_size_of 3 4 (3/4) = Inr 2 \<and>
      glyph_box block_platform ?f 3 4 ''S'' = (1, 0, 3, 2) \<and>
      pixel_at img 0 0 = Fin 1 \<and> pixel_at img 0 1 = Fin 0"
    using synthesizer_contract [OF h1 h2 h3 h4 h5 h6, of "''S''"]
  proof (elim exE conjE)
    fix img fs fnt
    assume r: "create_block_letter_s block_platform 3 4 ''S'' (3/4) = Inr img"
      and sh: "shape img = (nat 3, nat 4)"
      and dt: "dtype img = Float32"
      and rng: "values_in_unit img"
      and fs: "font_size_of 3 4 (3/4) = Inr fs"
      and fnt: "fnt = select_font block_platform fs"
      and geo: "case glyph_box block_platform fnt 3 4 ''S'' of
        (lft, tp, rgt, btm) \<Rightarrow>
          lft = (4 - (rgt - lft)) div 2 \<and>
          tp = (3 - (btm - tp)) div 2 \<and>
          (4 - rgt) - lft \<in> {0, 1} \<and>
          (3 - btm) - tp \<in> {0, 1} \<and>
          (\<forall>i < nat 3. \<forall>j < nat 4.
             (\<not> (lft \<le> int j \<and> int j < rgt \<and> tp \<le> int i \<and> int i < btm)
                \<longrightarrow> pixel_at img i j = Fin 1) \<and>
             (ink_at block_platform fnt 3 4 ''S'' i j = 0 \<longrightarrow> pixel_at img i j = Fin 1) \<and>
             (ink_at block_platform fnt 3 4 ''S'' i j = 255 \<longrightarrow> pixel_at img i j = Fin 0))"
    have "fs = 2" using fs f by simp
    then have ff: "fnt = ?f" using fnt sf by simp
    have px: "\<forall>i < nat 3. \<forall>j < nat 4.
        (\<not> (1 \<le> int j \<and> int j < 3 \<and> 0 \<le> int i \<and> int i < 2) \<longrightarrow> pixel_at img i j = Fin 1) \<and>
        (ink_at block_platform ?f 3 4 ''S'' i j = 0 \<longrightarrow> pixel_at img i j = Fin 1) \<and>
        (ink_at block_platform ?f 3 4 ''S'' i j = 255 \<longrightarrow> pixel_at img i j = Fin 0)"
      using geo unfolding ff g prod.case by (elim conjE)
    have p00: "pixel_at img 0 0 = Fin 1"
      using px [rule_format, of 0 0] by simp
    have p01: "pixel_at img 0 1 = Fin 0"
      using px [rule_format, of 0 1] ink by simp
    have sh': "shape img = (3, 4)" using sh by simp
    show ?thesis
      by (intro exI [of _ img] conjI r sh' dt rng f g p00 p01)
  qed
  then show ?thesis
    using h6 by simp
qed

subsection \<open>Sizes that are not positive\<close>

text \<open>
  The function does not check its height and width. On a canvas of height 0 it raises
  nothing and returns the empty array of shape (0, 5).
\<close>

theorem synthesizer_zero_size_counterexample:
  "create_block_letter_s block_platform 0 5 ''S'' (9/10) =
     Inr \<lparr>dtype = Float32, shape = (0, 5), data = []\<rparr>"
  by (simp add: create_block_letter_s_def Image_new_def font_size_of_def round64_0 Let_def
        to_float_array_def draw_text_def)

text \<open>
  C7, as the code has it. A negative height or width raises: the library's canvas
  constructor rejects the size with ValueError before anything is drawn. A height or
  width of zero (neither negative) raises nothing: the result is the empty image of
  shape (H, W).
\<close>

theorem synthesizer_nonpositive_size:
  "(H < 0 \<or> W < 0 \<longrightarrow>
      create_block_letter_s env H W letter r = Inl (ValueError ''Width and height must be >= 0'')) \<and>
   (0 \<le> H \<and> 0 \<le> W \<and> (H = 0 \<or> W = 0) \<longrightarrow>
      create_block_letter_s env H W letter r =
        Inr \<lparr>dtype = Float32, shape = (nat H, nat W), data = []\<rparr>)"
proof (intro conjI impI)
  assume "H < 0 \<or> W < 0"
  then show "create_block_letter_s env H W letter r =
      Inl (ValueError ''Width and height must be >= 0'')"
    by (auto simp: create_block_letter_s_def Image_new_def)
next
  assume a: "0 \<le> H \<and> 0 \<le> W \<and> (H = 0 \<or> W = 0)"
  then have "min H W = 0" by auto
  then have "font_size_of H W r = Inr 0"
    by (simp add: font_size_of_def round64_0 py_int_def)
  from create_block_letter_s_returns [OF _ _ this, of env letter] a
  show "create_block_letter_s env H W letter r =
      Inr \<lparr>dtype = Float32, shape = (nat H, nat W), data = []\<rparr>"
    by (auto simp: to_float_array_def draw_text_def)
qed

theorem synthesizer_nonpositive_size_witness:
  "((-1::int) < 0 \<or> (5::int) < 0) \<and>
   create_block_letter_s block_platform (-1) 5 ''S'' (9/10) =
     Inl (ValueError ''Width and height must be >= 0'') \<and>
   ((0::int) \<le> 0 \<and> (0::int) \<le> 5 \<and> ((0::int) = 0 \<or> (5::int) = 0)) \<and>
   create_block_letter_s block_platform 0 5 ''S'' (9/10) =
     Inr \<lparr>dtype = Float32, shape = (nat 0, nat 5), data = []\<rparr>"
  using synthesizer_nonpositive_size [of "-1" 5 block_platform "''S''" "9/10"]
    synthesizer_nonpositive_size [of 0 5 block_platform "''S''" "9/10"]
  by simp
section \<open>Properties of the Panel Compositor\<close>

subsection \<open>Auxiliary facts\<close>

lemma resize_contract_nearest_resize: "resize_contract nearest_resize"
  by (auto simp: resize_contract_def nearest_resize_def split: prod.splits)

lemma ensure_size_same:
  "shape img = (h, w) \<Longrightarrow> ensure_size rs img h w = Inr img"
  by (simp add: ensure_size_def)

lemma ensure_size_in_unit:
  "values_in_unit img \<Longrightarrow> ensure_size rs img h w = Inr out \<Longrightarrow> values_in_unit out"
  by (auto simp: ensure_size_def Let_def values_in_unit_to_float_array split: if_splits sum.splits)

text \<open>
  Scaling to a byte: for a value v in [0,1] the product v * 255, rounded in the element
  type, is truncated; the byte is the floor of v * 255 or, when the rounding reaches the
  next integer, that integer.
\<close>

lemma to_uint8_scaled:
  assumes "0 \<le> v" "v \<le> 1"
  shows "(\<exists>y. round_dtype d (v * 255) = Fin y \<and> int (unat (to_uint8 d (Fin v))) = \<lfloor>y\<rfloor>) \<and>
         \<lfloor>v * 255\<rfloor> \<le> int (unat (to_uint8 d (Fin v))) \<and>
         int (unat (to_uint8 d (Fin v))) \<le> \<lceil>v * 255\<rceil>"
proof -
  let ?x = "v * 255"
  have x0: "0 \<le> ?x" using assms(1) by simp
  have x1: "?x \<le> 255" using assms(2) by simp
  have "\<bar>?x\<bar> < 2 ^ 24" using x0 x1 by simp
  from round_dtype_int_fence [OF this, of d]
  obtain y where y: "round_dtype d ?x = Fin y"
    and f: "\<forall>n. of_int n \<le> ?x \<longrightarrow> of_int n \<le> y" "\<forall>n. ?x \<le> of_int n \<longrightarrow> y \<le> of_int n"
    by blast
  have b: "\<lfloor>?x\<rfloor> \<le> py_int y" "py_int y \<le> \<lceil>?x\<rceil>"
    using py_int_fenced [OF x0 f] by simp_all
  have y0: "0 \<le> y" using f(1) [rule_format, of 0] x0 by simp
  have pf: "py_int y = \<lfloor>y\<rfloor>" using y0 by (simp add: py_int_def)
  have "0 \<le> \<lfloor>?x\<rfloor>" using x0 by simp
  then have lo: "0 \<le> py_int y" using b(1) by linarith
  have "\<lceil>?x\<rceil> \<le> 255" using x1 by (simp add: ceiling_le_iff)
  then have hi: "py_int y < 256" using b(2) by linarith
  have w: "to_uint8 d (Fin v) = word_of_int (py_int y)"
    by (simp add: to_uint8_def y)
  have "uint (word_of_int (py_int y) :: 8 word) = py_int y mod 2 ^ 8"
    by (simp add: uint_word_of_int)
  also have "\<dots> = py_int y" using lo hi by simp
  finally have u: "int (unat (to_uint8 d (Fin v))) = py_int y"
    by (simp add: w)
  show ?thesis
    using y b pf unfolding u by simp
qed

lemma to_float_array_nth:
  "n < length (pixels im) \<Longrightarrow>
   data (to_float_array im) ! n = round32 (real (unat (pixels im ! n)) / 255)"
  by (simp add: to_float_array_def del: of_nat_unat)

text \<open>
  Rescaling a byte: the quotient by 255, rounded to single precision, lies in [0,1]
  within 2^-24 of the exact quotient.
\<close>

lemma round32_byte:
  "\<exists>y. round32 (real (unat (p :: 8 word)) / 255) = Fin y \<and> 0 \<le> y \<and> y \<le> 1 \<and>
       \<bar>y - real (unat p) / 255\<bar> \<le> 1 / 2 ^ 24"
proof -
  have b: "0 \<le> real (unat p) / 255" "real (unat p) / 255 \<le> 1"
    using byte_unit [of p] by simp_all
  from round32_unit [OF b] obtain y where
    y: "round32 (real (unat p) / 255) = Fin y" "0 \<le> y" "y \<le> 1"
    by blast
  from round32_error_unit [OF b y(1)] y show ?thesis
    by blast
qed

text \<open>
  The resizing branch of \<open>ensure_size\<close>, step by step: the bytes, the library's resize of
  the byte image to the target size, and the rescaled single-precision array.
\<close>

lemma ensure_size_round_trip:
  assumes "resize_contract rs" "shape x \<noteq> (h, w)"
    and "0 < fst (shape x)" "0 < snd (shape x)" "0 < h" "0 < w"
  shows "\<exists>x'. ensure_size rs x h w = Inr x' \<and> shape x' = (h, w) \<and>
     (\<exists>bytes im8.
        length bytes = length (data x) \<and>
        (\<forall>n < length (data x). \<forall>v. data x ! n = Fin v \<and> 0 \<le> v \<and> v \<le> 1 \<longrightarrow>
           (\<exists>y. round_dtype (dtype x) (v * 255) = Fin y \<and> int (unat (bytes ! n)) = \<lfloor>y\<rfloor>) \<and>
           \<lfloor>v * 255\<rfloor> \<le> int (unat (bytes ! n)) \<and> int (unat (bytes ! n)) \<le> \<lceil>v * 255\<rceil>) \<and>
        rs \<lparr>size_L = (snd (shape x), fst (shape x)), pixels = bytes\<rparr> (w, h) = Inr im8 \<and>
        size_L im8 = (w, h) \<and>
        dtype x' = Float32 \<and> wf_array x' \<and>
        length (data x') = length (pixels im8) \<and>
        (\<forall>n < length (pixels im8).
           data x' ! n = round32 (real (unat (pixels im8 ! n)) / 255) \<and>
           (\<exists>y. data x' ! n = Fin y \<and> 0 \<le> y \<and> y \<le> 1 \<and>
                \<bar>y - real (unat (pixels im8 ! n)) / 255\<bar> \<le> 1 / 2 ^ 24)))"
proof -
  define bytes where "bytes = map (to_uint8 (dtype x)) (data x)"
  let ?pil = "\<lparr>size_L = (snd (shape x), fst (shape x)), pixels = bytes\<rparr>"
  have pil: "Image_fromarray (shape x) (map (to_uint8 (dtype x)) (data x)) = ?pil"
    by (simp add: Image_fromarray_def bytes_def)
  have "0 < w \<and> 0 < h \<and> 0 < fst (size_L ?pil) \<and> 0 < snd (size_L ?pil)"
    using assms(3-6) by simp
  then obtain im8 where im8: "rs ?pil (w, h) = Inr im8" "size_L im8 = (w, h)"
      "length (pixels im8) = w * h"
    using assms(1) unfolding resize_contract_def by blast
  define x' where "x' = to_float_array im8"
  have r: "ensure_size rs x h w = Inr x'"
    using assms(2) im8(1) by (simp add: ensure_size_def pil x'_def)
  have sh: "shape x' = (h, w)"
    using im8(2) by (simp add: x'_def to_float_array_def)
  have dt: "dtype x' = Float32"
    by (simp add: x'_def to_float_array_def)
  have len: "length (data x') = length (pixels im8)"
    by (simp add: x'_def to_float_array_def)
  have wf: "wf_array x'"
    using sh len im8(3) by (simp add: wf_array_def mult.commute)
  have lb: "length bytes = length (data x)"
    by (simp add: bytes_def)
  have sc: "\<forall>n < length (data x). \<forall>v. data x ! n = Fin v \<and> 0 \<le> v \<and> v \<le> 1 \<longrightarrow>
           (\<exists>y. round_dtype (dtype x) (v * 255) = Fin y \<and> int (unat (bytes ! n)) = \<lfloor>y\<rfloor>) \<and>
           \<lfloor>v * 255\<rfloor> \<le> int (unat (bytes ! n)) \<and> int (unat (bytes ! n)) \<le> \<lceil>v * 255\<rceil>"
  proof (intro allI impI)
    fix n v
    assume n: "n < length (data x)" and v: "data x ! n = Fin v \<and> 0 \<le> v \<and> v \<le> 1"
    have "bytes ! n = to_uint8 (dtype x) (Fin v)"
      using n v by (simp add: bytes_def)
    then show "(\<exists>y. round_dtype (dtype x) (v * 255) = Fin y \<and> int (unat (bytes ! n)) = \<lfloor>y\<rfloor>) \<and>
           \<lfloor>v * 255\<rfloor> \<le> int (unat (bytes ! n)) \<and> int (unat (bytes ! n)) \<le> \<lceil>v * 255\<rceil>"
      using to_uint8_scaled [of v "dtype x"] v by (simp only:)
  qed
  have rs: "\<forall>n < length (pixels im8).
           data x' ! n = round32 (real (unat (pixels im8 ! n)) / 255) \<and>
           (\<exists>y. data x' ! n = Fin y \<and> 0 \<le> y \<and> y \<le> 1 \<and>
                \<bar>y - real (unat (pixels im8 ! n)) / 255\<bar> \<le> 1 / 2 ^ 24)"
  proof (intro allI impI)
    fix n
    assume n: "n < length (pixels im8)"
    have e: "data x' ! n = round32 (real (unat (pixels im8 ! n)) / 255)"
      unfolding x'_def using n by (rule to_float_array_nth)
    show "data x' ! n = round32 (real (unat (pixels im8 ! n)) / 255) \<and>
           (\<exists>y. data x' ! n = Fin y \<and> 0 \<le> y \<and> y \<le> 1 \<and>
                \<bar>y - real (unat (pixels im8 ! n)) / 255\<bar> \<le> 1 / 2 ^ 24)"
      unfolding e using round32_byte [of "pixels im8 ! n"] by (intro conjI refl)
  qed
  show ?thesis
    using r sh lb sc im8(1,2) dt wf len rs
    by (intro exI [of _ x'] exI [of _ bytes] exI [of _ im8] conjI) assumption+
qed

lemma ensure_size_returns:
  assumes "resize_contract rs" "0 < fst (shape x)" "0 < snd (shape x)" "0 < h" "0 < w"
  shows "\<exists>x'. ensure_size rs x h w = Inr x' \<and> shape x' = (h, w)"
proof (cases "shape x = (h, w)")
  case True
  then show ?thesis by (simp add: ensure_size_same)
next
  case False
  from ensure_size_round_trip [OF assms(1) False assms(2-5)]
  show ?thesis by blast
qed

subsection \<open>Dimension reconciliation\<close>

text \<open>
  C8. The shape (height, width) of the first image is canonical. With a resampler that
  keeps the library's promise and images that are not empty, the compositor returns, the
  first panel is the first image itself, and each of the other three panels has exactly
  the canonical shape. An image whose shape already equals it is passed on unchanged
  (the same array, no resize). An image whose shape differs goes through bytes: every
  value v in [0,1] is scaled to the byte that truncates v * 255 as computed in the
  element type of the image, which is the floor of v * 255 or the next integer when the
  product rounds up to it; the byte image, of the size of the image, is resized by the
  library to (canonical width, canonical height); and the panel is the single-precision
  array of the resized bytes divided by 255, each value in [0,1] and within 2^-24 of the
  exact quotient.
\<close>

theorem reconcile_to_canonical:
  assumes "resize_contract rs"
    and "0 < fst (shape original)" "0 < snd (shape original)"
    and "\<forall>x \<in> set [stipple, block, masked]. 0 < fst (shape x) \<and> 0 < snd (shape x)"
  shows "\<exists>m. create_statistics_meme rs original stipple block masked path dpi bg = Inr m \<and>
     map fst (panels m) = labels \<and> length (panels m) = 4 \<and>
     snd (panels m ! 0) = original \<and>
     (\<forall>k < 3.
        let x = [stipple, block, masked] ! k; x' = snd (panels m ! Suc k)
        in shape x' = shape original \<and>
           (shape x = shape original \<longrightarrow> x' = x) \<and>
           (shape x \<noteq> shape original \<longrightarrow>
     (\<exists>bytes im8.
        length bytes = length (data x) \<and>
        (\<forall>n < length (data x). \<forall>v. data x ! n = Fin v \<and> 0 \<le> v \<and> v \<le> 1 \<longrightarrow>
           (\<exists>y. round_dtype (dtype x) (v * 255) = Fin y \<and> int (unat (bytes ! n)) = \<lfloor>y\<rfloor>) \<and>
           \<lfloor>v * 255\<rfloor> \<le> int (unat (bytes ! n)) \<and> int (unat (bytes ! n)) \<le> \<lceil>v * 255\<rceil>) \<and>
        rs \<lparr>size_L = (snd (shape x), fst (shape x)), pixels = bytes\<rparr>
           (snd (shape original), fst (shape original)) = Inr im8 \<and>
        size_L im8 = (snd (shape original), fst (shape original)) \<and>
        dtype x' = Float32 \<and> wf_array x' \<and>
        length (data x') = length (pixels im8) \<and>
        (\<forall>n < length (pixels im8).
           data x' ! n = round32 (real (unat (pixels im8 ! n)) / 255) \<and>
           (\<exists>y. data x' ! n = Fin y \<and> 0 \<le> y \<and> y \<le> 1 \<and>
                \<bar>y - real (unat (pixels im8 ! n)) / 255\<bar> \<le> 1 / 2 ^ 24)))))"
proof -
  let ?h = "fst (shape original)" and ?w = "snd (shape original)"
  let ?P = "\<lambda>x x'. shape x' = shape original \<and>
           (shape x = shape original \<longrightarrow> x' = x) \<and>
           (shape x \<noteq> shape original \<longrightarrow>
     (\<exists>bytes im8.
        length bytes = length (data x) \<and>
        (\<forall>n < length (data x). \<forall>v. data x ! n = Fin v \<and> 0 \<le> v \<and> v \<le> 1 \<longrightarrow>
           (\<exists>y. round_dtype (dtype x) (v * 255) = Fin y \<and> int (unat (bytes ! n)) = \<lfloor>y\<rfloor>) \<and>
           \<lfloor>v * 255\<rfloor> \<le> int (unat (bytes ! n)) \<and> int (unat (bytes ! n)) \<le> \<lceil>v * 255\<rceil>) \<and>
        rs \<lparr>size_L = (snd (shape x), fst (shape x)), pixels = bytes\<rparr>
           (snd (shape original), fst (shape original)) = Inr im8 \<and>
        size_L im8 = (snd (shape original), fst (shape original)) \<and>
        dtype x' = Float32 \<and> wf_array x' \<and>
        length (data x') = length (pixels im8) \<and>
        (\<forall>n < length (pixels im8).
           data x' ! n = round32 (real (unat (pixels im8 ! n)) / 255) \<and>
           (\<exists>y. data x' ! n = Fin y \<and> 0 \<le> y \<and> y \<le> 1 \<and>
                \<bar>y - real (unat (pixels im8 ! n)) / 255\<bar> \<le> 1 / 2 ^ 24))))"
  have hw: "shape original = (?h, ?w)"
    by simp
  have one: "\<exists>x'. ensure_size rs x ?h ?w = Inr x' \<and> ?P x x'"
    if x: "0 < fst (shape x)" "0 < snd (shape x)" for x
  proof (cases "shape x = shape original")
    case True
    then have e: "ensure_size rs x ?h ?w = Inr x"
      by (intro ensure_size_same) simp
    have p: "?P x x"
      by (intro conjI impI) (simp_all add: True)
    show ?thesis
      by (rule exI [of _ x]) (rule conjI [OF e p])
  next
    case False
    then have ne: "shape x \<noteq> (?h, ?w)" by simp
    from ensure_size_round_trip [OF assms(1) ne x assms(2,3)]
    obtain x' where all: "ensure_size rs x ?h ?w = Inr x' \<and> shape x' = (?h, ?w) \<and>
      (\<exists>bytes im8.
        length bytes = length (data x) \<and>
        (\<forall>n < length (data x). \<forall>v. data x ! n = Fin v \<and> 0 \<le> v \<and> v \<le> 1 \<longrightarrow>
           (\<exists>y. round_dtype (dtype x) (v * 255) = Fin y \<and> int (unat (bytes ! n)) = \<lfloor>y\<rfloor>) \<and>
           \<lfloor>v * 255\<rfloor> \<le> int (unat (bytes ! n)) \<and> int (unat (bytes ! n)) \<le> \<lceil>v * 255\<rceil>) \<and>
        rs \<lparr>size_L = (snd (shape x), fst (shape x)), pixels = bytes\<rparr>
           (snd (shape original), fst (shape original)) = Inr im8 \<and>
        size_L im8 = (snd (shape original), fst (shape original)) \<and>
        dtype x' = Float32 \<and> wf_array x' \<and>
        length (data x') = length (pixels im8) \<and>
        (\<forall>n < length (pixels im8).
           data x' ! n = round32 (real (unat (pixels im8 ! n)) / 255) \<and>
           (\<exists>y. data x' ! n = Fin y \<and> 0 \<le> y \<and> y \<le> 1 \<and>
                \<bar>y - real (unat (pixels im8 ! n)) / 255\<bar> \<le> 1 / 2 ^ 24)))"
      by (rule exE)
    note x' = all [THEN conjunct1] all [THEN conjunct2, THEN conjunct1]
      and rt = all [THEN conjunct2, THEN conjunct2]
    have sho: "shape x' = shape original" using x'(2) by simp
    have p: "?P x x'"
      by (intro conjI impI) (fact sho, simp add: False, rule rt)
    show ?thesis
      by (rule exI [of _ x']) (rule conjI [OF x'(1) p])
  qed
  have px: "0 < fst (shape x) \<and> 0 < snd (shape x)" if "x \<in> {stipple, block, masked}" for x
    using assms(4) that by auto
  have ps: "0 < fst (shape stipple)" "0 < snd (shape stipple)"
    and pb: "0 < fst (shape block)" "0 < snd (shape block)"
    and pk: "0 < fst (shape masked)" "0 < snd (shape masked)"
    using px [of stipple] px [of block] px [of masked] by simp_all
  from one [OF ps] obtain s' where s'all: "ensure_size rs stipple ?h ?w = Inr s' \<and> ?P stipple s'"
    by (rule exE)
  from one [OF pb] obtain b' where b'all: "ensure_size rs block ?h ?w = Inr b' \<and> ?P block b'"
    by (rule exE)
  from one [OF pk] obtain k' where k'all: "ensure_size rs masked ?h ?w = Inr k' \<and> ?P masked k'"
    by (rule exE)
  note s' = s'all [THEN conjunct1] s'all [THEN conjunct2]
    and b' = b'all [THEN conjunct1] b'all [THEN conjunct2]
    and k' = k'all [THEN conjunct1] k'all [THEN conjunct2]
  define m where "m = \<lparr>figsize = (20, 7), facecolor = bg,
              panels = zip labels [original, s', b', k'],
              separators = [1/4, 1/2, 3/4], savefig_path = path, savefig_dpi = dpi,
              printed_panel_size = (?w, ?h), printed_total_size = (?w * 4, ?h)\<rparr>"
  have "create_statistics_meme rs original stipple block masked path dpi bg =
      (case (?h, ?w) of
        (h, w) \<Rightarrow>
          (case ensure_size rs stipple h w of
             Inl e \<Rightarrow> Inl e
           | Inr stipple_img' \<Rightarrow>
          (case ensure_size rs block h w of
             Inl e \<Rightarrow> Inl e
           | Inr block_letter_img' \<Rightarrow>
          (case ensure_size rs masked h w of
             Inl e \<Rightarrow> Inl e
           | Inr masked_stipple_img' \<Rightarrow>
               Inr \<lparr>figsize = (20, 7),
                    facecolor = bg,
                    panels = zip labels
                      [original, stipple_img', block_letter_img', masked_stipple_img'],
                    separators = [1/4, 1/2, 3/4],
                    savefig_path = path,
                    savefig_dpi = dpi,
                    printed_panel_size = (w, h),
                    printed_total_size = (w * 4, h)\<rparr>))))"
    unfolding create_statistics_meme_def by (simp only: prod.collapse)
  then have m: "create_statistics_meme rs original stipple block masked path dpi bg = Inr m"
    by (simp only: prod.case s'(1) b'(1) k'(1) sum.case m_def)
  have pn: "panels m =
      [(''Reality'', original), (''Your Model'', s'), (''Selection Bias'', b'), (''Estimate'', k')]"
    by (simp add: m_def labels_def)
  have p0: "snd (panels m ! 0) = original" and p1: "snd (panels m ! Suc 0) = s'"
    and p2: "snd (panels m ! Suc (Suc 0)) = b'" and p3: "snd (panels m ! Suc (Suc (Suc 0))) = k'"
    by (simp_all add: pn)
  have each: "let x = [stipple, block, masked] ! k; x' = snd (panels m ! Suc k) in ?P x x'"
    if "k < 3" for k
  proof -
    from that consider "k = 0" | "k = Suc 0" | "k = Suc (Suc 0)" by linarith
    then show ?thesis
    proof cases
      case 1
      show ?thesis
        unfolding 1 Let_def p1 nth_Cons_0 by (rule s'(2))
    next
      case 2
      show ?thesis
        unfolding 2 Let_def p2 nth_Cons_Suc nth_Cons_0 by (rule b'(2))
    next
      case 3
      show ?thesis
        unfolding 3 Let_def p3 nth_Cons_Suc nth_Cons_0 by (rule k'(2))
    qed
  qed
  have lab: "map fst (panels m) = labels" and len: "length (panels m) = 4"
    by (simp_all add: pn labels_def)
  have all: "\<forall>k < 3. let x = [stipple, block, masked] ! k; x' = snd (panels m ! Suc k) in ?P x x'"
    using each by blast
  show ?thesis
    using m lab len p0 all by (intro exI [of _ m] conjI) assumption+
qed

text \<open>
  An instance with nearest-neighbour resampling: a canonical 1 x 1 image, a 1 x 2 image
  that is resized to 1 x 1, and two 1 x 1 images that are passed on as they are.
\<close>

theorem reconcile_to_canonical_witness:
  "resize_contract nearest_resize \<and>
   0 < fst (shape \<lparr>dtype = Float64, shape = (1, 1), data = [Fin 0]\<rparr>) \<and>
   0 < snd (shape \<lparr>dtype = Float64, shape = (1, 1), data = [Fin 0]\<rparr>) \<and>
   0 < fst (shape \<lparr>dtype = Float64, shape = (1, 2), data = [Fin 0, Fin 1]\<rparr>) \<and>
   0 < snd (shape \<lparr>dtype = Float64, shape = (1, 2), data = [Fin 0, Fin 1]\<rparr>) \<and>
   (\<exists>m. create_statistics_meme nearest_resize \<lparr>dtype = Float64, shape = (1, 1), data = [Fin 0]\<rparr>
           \<lparr>dtype = Float64, shape = (1, 2), data = [Fin 0, Fin 1]\<rparr>
           \<lparr>dtype = Float32, shape = (1, 1), data = [Fin 1]\<rparr>
           \<lparr>dtype = Float64, shape = (1, 1), data = [Fin (1/2)]\<rparr> ''meme.png'' 150 ''white'' = Inr m \<and>
        snd (panels m ! 0) = \<lparr>dtype = Float64, shape = (1, 1), data = [Fin 0]\<rparr> \<and>
        shape (snd (panels m ! 1)) = (1, 1) \<and>
        snd (panels m ! 2) = \<lparr>dtype = Float32, shape = (1, 1), data = [Fin 1]\<rparr> \<and>
        snd (panels m ! 3) = \<lparr>dtype = Float64, shape = (1, 1), data = [Fin (1/2)]\<rparr>)"
proof -
  let ?O = "\<lparr>dtype = Float64, shape = (1, 1), data = [Fin 0]\<rparr>"
  let ?S = "\<lparr>dtype = Float64, shape = (1, 2), data = [Fin 0, Fin 1]\<rparr>"
  let ?B = "\<lparr>dtype = Float32, shape = (1, 1), data = [Fin 1]\<rparr>"
  let ?K = "\<lparr>dtype = Float64, shape = (1, 1), data = [Fin (1/2)]\<rparr>"
  have h1: "resize_contract nearest_resize"
    by (rule resize_contract_nearest_resize)
  have h2: "0 < fst (shape ?O)" and h3: "0 < snd (shape ?O)"
    by simp_all
  have h4: "\<forall>x \<in> set [?S, ?B, ?K]. 0 < fst (shape x) \<and> 0 < snd (shape x)"
    by simp
  have "\<exists>m. create_statistics_meme nearest_resize ?O ?S ?B ?K ''meme.png'' 150 ''white'' = Inr m \<and>
        snd (panels m ! 0) = ?O \<and> shape (snd (panels m ! 1)) = (1, 1) \<and>
        snd (panels m ! 2) = ?B \<and> snd (panels m ! 3) = ?K"
    using reconcile_to_canonical [OF h1 h2 h3 h4, of "''meme.png''" 150 "''white''"]
  proof (elim exE conjE)
    fix m
    assume m: "create_statistics_meme nearest_resize ?O ?S ?B ?K ''meme.png'' 150 ''white'' = Inr m"
      and p0: "snd (panels m ! 0) = ?O"
      and each: "\<forall>k < 3.
        let x = [?S, ?B, ?K] ! k; x' = snd (panels m ! Suc k)
        in shape x' = shape ?O \<and>
           (shape x = shape ?O \<longrightarrow> x' = x) \<and>
           (shape x \<noteq> shape ?O \<longrightarrow>
     (\<exists>bytes im8.
        length bytes = length (data x) \<and>
        (\<forall>n < length (data x). \<forall>v. data x ! n = Fin v \<and> 0 \<le> v \<and> v \<le> 1 \<longrightarrow>
           (\<exists>y. round_dtype (dtype x) (v * 255) = Fin y \<and> int (unat (bytes ! n)) = \<lfloor>y\<rfloor>) \<and>
           \<lfloor>v * 255\<rfloor> \<le> int (unat (bytes ! n)) \<and> int (unat (bytes ! n)) \<le> \<lceil>v * 255\<rceil>) \<and>
        nearest_resize \<lparr>size_L = (snd (shape x), fst (shape x)), pixels = bytes\<rparr>
           (snd (shape ?O), fst (shape ?O)) = Inr im8 \<and>
        size_L im8 = (snd (shape ?O), fst (shape ?O)) \<and>
        dtype x' = Float32 \<and> wf_array x' \<and>
        length (data x') = length (pixels im8) \<and>
        (\<forall>n < length (pixels im8).
           data x' ! n = round32 (real (unat (pixels im8 ! n)) / 255) \<and>
           (\<exists>y. data x' ! n = Fin y \<and> 0 \<le> y \<and> y \<le> 1 \<and>
                \<bar>y - real (unat (pixels im8 ! n)) / 255\<bar> \<le> 1 / 2 ^ 24))))"
    have k0: "(0::nat) < 3" and k1: "(1::nat) < 3" and k2: "(2::nat) < 3"
      by simp_all
    have e0: "shape (snd (panels m ! Suc 0)) = shape ?O"
      by (rule each [rule_format, OF k0, unfolded Let_def, THEN conjunct1])
    have e1: "shape ([?S, ?B, ?K] ! 1) = shape ?O \<longrightarrow> snd (panels m ! Suc 1) = [?S, ?B, ?K] ! 1"
      by (rule each [rule_format, OF k1, unfolded Let_def, THEN conjunct2, THEN conjunct1])
    have e2: "shape ([?S, ?B, ?K] ! 2) = shape ?O \<longrightarrow> snd (panels m ! Suc 2) = [?S, ?B, ?K] ! 2"
      by (rule each [rule_format, OF k2, unfolded Let_def, THEN conjunct2, THEN conjunct1])
    have p1: "shape (snd (panels m ! 1)) = (1, 1)"
      using e0 by simp
    have p2: "snd (panels m ! 2) = ?B"
      using e1 by (simp add: numeral_2_eq_2)
    have p3: "snd (panels m ! 3) = ?K"
      using e2 by (simp add: numeral_3_eq_3 numeral_2_eq_2)
    show ?thesis
      by (intro exI [of _ m] conjI m p0 p1 p2 p3)
  qed
  then show ?thesis
    using h1 by simp
qed

section \<open>Range of the pixel values\<close>

text \<open>
  C5. No stage leaves the interval [0,1]. The Mask Applicator, given an image with
  values in [0,1] and a mask of the same shape (whatever the mask's values and the
  threshold), returns an image with values in [0,1]. Whatever the Mask Synthesizer
  returns has values in [0,1], and it does return an image for a height and width that
  are not negative when the product of the smaller side (below 2^53) and the ratio is
  within the range of a double (beyond it the call raises OverflowError and returns
  nothing). The compositor's reconciliation of an image with values
  in [0,1] yields, whenever it yields an image, one with values in [0,1], resized or
  not; and it does yield one for a resampler that keeps the library's promise, an image
  that is not empty and a positive target size.
\<close>

theorem values_stay_in_unit:
  "(values_in_unit S \<and> shape S = shape M \<longrightarrow>
      (\<exists>R. create_masked_stipple S M t = Inr R \<and> values_in_unit R)) \<and>
   (\<forall>a. create_block_letter_s env H W letter r = Inr a \<longrightarrow> values_in_unit a) \<and>
   (0 \<le> H \<and> 0 \<le> W \<and> min H W < 2 ^ 53 \<and> \<bar>real_of_int (min H W) * r\<bar> \<le> 2 ^ 1023 \<longrightarrow>
      (\<exists>img. create_block_letter_s env H W letter r = Inr img \<and> values_in_unit img)) \<and>
   (values_in_unit img \<longrightarrow>
      (\<forall>out. ensure_size rs img h w = Inr out \<longrightarrow> values_in_unit out)) \<and>
   (values_in_unit img \<and> resize_contract rs \<and> 0 < fst (shape img) \<and> 0 < snd (shape img) \<and>
    0 < h \<and> 0 < w \<longrightarrow>
      (\<exists>out. ensure_size rs img h w = Inr out \<and> values_in_unit out))"
proof (intro conjI impI allI)
  assume a: "values_in_unit S \<and> shape S = shape M"
  then show "\<exists>R. create_masked_stipple S M t = Inr R \<and> values_in_unit R"
    by (simp add: create_masked_stipple_def values_in_unit_def setitem_mask_in_unit)
next
  fix a
  assume "create_block_letter_s env H W letter r = Inr a"
  then show "values_in_unit a"
    by (rule create_block_letter_s_in_unit)
next
  assume a: "0 \<le> H \<and> 0 \<le> W \<and> min H W < 2 ^ 53 \<and> \<bar>real_of_int (min H W) * r\<bar> \<le> 2 ^ 1023"
  then have "0 \<le> min H W" by simp
  from font_size_of_returns [OF this] a obtain fs where fs: "font_size_of H W r = Inr fs"
    by blast
  from create_block_letter_s_returns [OF _ _ fs, of env letter] a
  show "\<exists>img. create_block_letter_s env H W letter r = Inr img \<and> values_in_unit img"
    by (simp add: values_in_unit_to_float_array)
next
  fix out
  assume "values_in_unit img" "ensure_size rs img h w = Inr out"
  then show "values_in_unit out"
    by (rule ensure_size_in_unit)
next
  assume a: "values_in_unit img \<and> resize_contract rs \<and> 0 < fst (shape img) \<and>
      0 < snd (shape img) \<and> 0 < h \<and> 0 < w"
  then obtain out where out: "ensure_size rs img h w = Inr out"
    using ensure_size_returns [of rs img h w] by blast
  then have "values_in_unit out"
    using a ensure_size_in_unit by blast
  then show "\<exists>out. ensure_size rs img h w = Inr out \<and> values_in_unit out"
    using out by blast
qed

text \<open>
  An instance of each stage: the 1 x 2 image masked at threshold 0.5, the letter S on a
  3 x 4 canvas of the block platform, and the 1 x 2 image reconciled to 2 x 2.
\<close>

theorem values_stay_in_unit_witness:
  "(values_in_unit \<lparr>dtype = Float64, shape = (1, 2), data = [Fin 0, Fin (1/4)]\<rparr> \<and>
    shape \<lparr>dtype = Float64, shape = (1, 2), data = [Fin 0, Fin (1/4)]\<rparr> =
      shape \<lparr>dtype = Float32, shape = (1, 2), data = [Fin (1/2), Fin (1/5)]\<rparr>) \<and>
   (\<exists>R. create_masked_stipple \<lparr>dtype = Float64, shape = (1, 2), data = [Fin 0, Fin (1/4)]\<rparr>
           \<lparr>dtype = Float32, shape = (1, 2), data = [Fin (1/2), Fin (1/5)]\<rparr> (Fin (1/2)) = Inr R \<and>
        values_in_unit R) \<and>
   ((0::int) \<le> 3 \<and> (0::int) \<le> 4 \<and> min 3 4 < (2::int) ^ 53 \<and>
    \<bar>real_of_int (min 3 4) * (9/10)\<bar> \<le> 2 ^ 1023) \<and>
   (\<exists>img. create_block_letter_s block_platform 3 4 ''S'' (9/10) = Inr img \<and> values_in_unit img) \<and>
   (resize_contract nearest_resize \<and> (0::nat) < 2) \<and>
   (\<exists>out. ensure_size nearest_resize
            \<lparr>dtype = Float64, shape = (1, 2), data = [Fin 0, Fin (1/4)]\<rparr> 2 2 = Inr out \<and>
        values_in_unit out)"
proof -
  let ?S = "\<lparr>dtype = Float64, shape = (1, 2), data = [Fin 0, Fin (1/4)]\<rparr>"
  let ?M = "\<lparr>dtype = Float32, shape = (1, 2), data = [Fin (1/2), Fin (1/5)]\<rparr>"
  have h1: "values_in_unit ?S \<and> shape ?S = shape ?M"
    by (simp add: values_in_unit_def)
  have "(3::real) * (9/10) \<le> 2 ^ 2" by simp
  also have "(2::real) ^ 2 \<le> 2 ^ 1023" by (rule power_increasing) simp_all
  finally have h2: "(0::int) \<le> 3 \<and> (0::int) \<le> 4 \<and> min 3 4 < (2::int) ^ 53 \<and>
      \<bar>real_of_int (min 3 4) * (9/10)\<bar> \<le> 2 ^ 1023"
    by simp
  have rc: "resize_contract nearest_resize"
    by (rule resize_contract_nearest_resize)
  have h3: "values_in_unit ?S \<and> resize_contract nearest_resize \<and> 0 < fst (shape ?S) \<and>
      0 < snd (shape ?S) \<and> (0::nat) < 2 \<and> (0::nat) < 2"
    using h1 rc by simp
  from values_stay_in_unit [where S = ?S and M = ?M and t = "Fin (1/2)" and H = 3 and W = 4
      and env = block_platform and letter = "''S''" and r = "9/10" and img = ?S
      and rs = nearest_resize and h = 2 and w = 2] h1 h2 h3
  show ?thesis
    by blast
qed

section \<open>Size of the composite\<close>

text \<open>
  C9. The picture is not four panel widths wide. The figure is created with the fixed
  size of 20 by 7 inches and saved at the requested resolution, so the width of the
  canvas does not depend on the panels: for four panels of 100 by 100 pixels at 150 dots
  per inch the function reports a total size of 400 by 100 pixels, while the canvas it
  has rasterised measures 3000 by 1050 pixels, of which the panels span the whole width.
\<close>

theorem meme_canvas_not_four_panel_widths:
  "\<exists>m. create_statistics_meme nearest_resize
          \<lparr>dtype = Float64, shape = (100, 100), data = replicate 10000 (Fin 0)\<rparr>
          \<lparr>dtype = Float64, shape = (100, 100), data = replicate 10000 (Fin 0)\<rparr>
          \<lparr>dtype = Float32, shape = (100, 100), data = replicate 10000 (Fin 0)\<rparr>
          \<lparr>dtype = Float64, shape = (100, 100), data = replicate 10000 (Fin 0)\<rparr>
          ''meme.png'' 150 ''white'' = Inr m \<and>
        printed_total_size m = (400, 100) \<and>
        canvas_pixels m = (3000, 1050)"
  by (simp add: create_statistics_meme_def ensure_size_def canvas_pixels_def)

end
